theory Spec2Isabelle
  imports Main "HOL-Library.Word" "HOL-Library.Sublist"
begin

section \<open>JavaScript strings\<close>

text \<open>
  A JavaScript string is a sequence of UTF-16 code units. The regular expressions and
  \<^verbatim>\<open>trim\<close> of the source work on code units, so a string is a list of 16-bit words.
  \<open>js\<close> writes an ASCII literal of the source as such a list.
\<close>

type_synonym jschar = "16 word"
type_synonym jsstring = "jschar list"

definition js :: "string \<Rightarrow> jsstring" where
  "js s = map of_char s"

definition LBRACE :: jschar where
  "LBRACE = 123"

definition RBRACE :: jschar where
  "RBRACE = 125"

definition COMMA :: jschar where
  "COMMA = 44"

text \<open>
  The code units that \<^verbatim>\<open>String.prototype.trim\<close> strips: WhiteSpace and LineTerminator
  of ECMAScript (TAB, LF, VT, FF, CR, SP, NBSP, U+1680, U+2000..U+200A, LS, PS, U+202F,
  U+205F, U+3000, BOM).
\<close>

definition isWhiteSpace :: "jschar \<Rightarrow> bool" where
  "isWhiteSpace c =
     (c = 9 \<or> c = 10 \<or> c = 11 \<or> c = 12 \<or> c = 13 \<or> c = 32 \<or> c = 160 \<or> c = 5760
      \<or> (8192 \<le> c \<and> c \<le> 8202) \<or> c = 8232 \<or> c = 8233 \<or> c = 8239 \<or> c = 8287
      \<or> c = 12288 \<or> c = 65279)"

definition trim :: "jsstring \<Rightarrow> jsstring" where
  "trim s = rev (dropWhile isWhiteSpace (rev (dropWhile isWhiteSpace s)))"

text \<open>A string is truthy when it is not empty.\<close>

definition truthy :: "jsstring \<Rightarrow> bool" where
  "truthy s = (s \<noteq> [])"

section \<open>The placeholder pattern\<close>

text \<open>
  One attempt of the pattern \<^verbatim>\<open>/\{([^}]+)\}/\<close> at the start of a string: an opening
  brace, then the longest non-empty run of code units other than the closing brace, then
  a closing brace. The greedy run stops only at a closing brace or at the end of the
  string, and no shorter run is followed by a closing brace, so the attempt succeeds
  exactly when the run is not empty and the string does not end with it. The result is
  the capture group and the text after the match.
\<close>

definition placeholder_at :: "jsstring \<Rightarrow> (jsstring \<times> jsstring) option" where
  "placeholder_at s =
     (case s of
        [] \<Rightarrow> None
      | c # cs \<Rightarrow>
          if c = LBRACE
             \<and> takeWhile (\<lambda>x. x \<noteq> RBRACE) cs \<noteq> []
             \<and> dropWhile (\<lambda>x. x \<noteq> RBRACE) cs \<noteq> []
          then Some (takeWhile (\<lambda>x. x \<noteq> RBRACE) cs, tl (dropWhile (\<lambda>x. x \<noteq> RBRACE) cs))
          else None)"

text \<open>
  \<^verbatim>\<open>template.match(/\{([^}]+)\}/g)\<close>: the full texts of all matches, left to right, each
  search resuming after the previous match. (JavaScript returns \<^verbatim>\<open>null\<close> for no
  match; the caller below tests for it.)
\<close>

function match_g :: "jsstring \<Rightarrow> jsstring list" where
  "match_g [] = []"
| "match_g (c # cs) =
     (case placeholder_at (c # cs) of
        None \<Rightarrow> match_g cs
      | Some (cap, rest) \<Rightarrow> (LBRACE # cap @ [RBRACE]) # match_g rest)"
  by pat_completeness auto
termination
proof (relation "measure length")
  show "wf (measure length)" by simp
next
  fix c :: jschar and cs :: jsstring
  show "(cs, c # cs) \<in> measure length" by simp
next
  fix c :: jschar and cs x y :: jsstring
  fix p :: "jsstring \<times> jsstring"
  assume "placeholder_at (c # cs) = Some p" and "(x, y) = p"
  then have "y = tl (dropWhile (\<lambda>x. x \<noteq> RBRACE) cs)"
    by (auto simp: placeholder_at_def split: if_splits)
  moreover have "length (dropWhile (\<lambda>x. x \<noteq> RBRACE) cs) \<le> length cs"
    by (rule length_dropWhile_le)
  ultimately show "(y, c # cs) \<in> measure length" by simp
qed

text \<open>
  \<^verbatim>\<open>template.replace(/\{([^}]+)\}/g, fn)\<close>: every match is replaced by what the callback
  returns for the full match and the capture group; the text between matches is kept.
\<close>

function replace_g :: "(jsstring \<Rightarrow> jsstring \<Rightarrow> jsstring) \<Rightarrow> jsstring \<Rightarrow> jsstring" where
  "replace_g fn [] = []"
| "replace_g fn (c # cs) =
     (case placeholder_at (c # cs) of
        None \<Rightarrow> c # replace_g fn cs
      | Some (cap, rest) \<Rightarrow> fn (LBRACE # cap @ [RBRACE]) cap @ replace_g fn rest)"
  by pat_completeness auto
termination
proof (relation "measure (\<lambda>(fn, s). length s)")
  show "wf (measure (\<lambda>(fn :: jsstring \<Rightarrow> jsstring \<Rightarrow> jsstring, s :: jsstring). length s))" by simp
next
  fix fn :: "jsstring \<Rightarrow> jsstring \<Rightarrow> jsstring" and c :: jschar and cs :: jsstring
  show "((fn, cs), fn, c # cs) \<in> measure (\<lambda>(fn, s). length s)" by simp
next
  fix fn :: "jsstring \<Rightarrow> jsstring \<Rightarrow> jsstring" and c :: jschar and cs x y :: jsstring
  fix p :: "jsstring \<times> jsstring"
  assume "placeholder_at (c # cs) = Some p" and "(x, y) = p"
  then have "y = tl (dropWhile (\<lambda>x. x \<noteq> RBRACE) cs)"
    by (auto simp: placeholder_at_def split: if_splits)
  moreover have "length (dropWhile (\<lambda>x. x \<noteq> RBRACE) cs) \<le> length cs"
    by (rule length_dropWhile_le)
  ultimately show "((fn, y), fn, c # cs) \<in> measure (\<lambda>(fn, s). length s)" by simp
qed

section \<open>Placeholder extraction and merging\<close>

text \<open>
  A JavaScript \<^verbatim>\<open>Set\<close> keeps its elements in insertion order and ignores the insertion
  of an element it already has; \<^verbatim>\<open>Array.from\<close> lists them in that order. So the set is
  the list of its elements, and \<open>set_add\<close> is \<^verbatim>\<open>Set.prototype.add\<close>.
\<close>

definition set_add :: "'a list \<Rightarrow> 'a \<Rightarrow> 'a list" where
  "set_add s x = (if x \<in> set s then s else s @ [x])"

text \<open>\<^verbatim>\<open>token.replace(/[{}]/g, "")\<close>: the token without its braces.\<close>

definition strip_braces :: "jsstring \<Rightarrow> jsstring" where
  "strip_braces token = filter (\<lambda>c. c \<noteq> LBRACE \<and> c \<noteq> RBRACE) token"

definition parsePlaceholders :: "jsstring \<Rightarrow> jsstring list" where
  "parsePlaceholders template =
     (let matches = match_g template in
      if matches = [] then []
      else fold (\<lambda>token placeholders.
                   let clean = trim (strip_braces token)
                   in if truthy clean then set_add placeholders clean else placeholders)
             matches [])"

text \<open>
  \<open>values\<close> is a plain object: \<open>values k\<close> is its own property \<open>k\<close>, a string. The
  property read \<^verbatim>\<open>values[key]\<close> answers with the own property when there is one and
  goes on to \<^verbatim>\<open>Object.prototype\<close> otherwise, whose members are listed here. An inherited
  member is a function (for \<^verbatim>\<open>__proto__\<close> the prototype object itself), never
  \<^verbatim>\<open>undefined\<close> or \<^verbatim>\<open>null\<close>, so \<^verbatim>\<open>??\<close> keeps it and \<^verbatim>\<open>replace\<close> inserts its text.
  That text depends on the engine; \<open>member_text\<close> gives it for each member name.
\<close>

definition object_prototype_names :: "jsstring list" where
  "object_prototype_names =
     [js ''constructor'', js ''__defineGetter__'', js ''__defineSetter__'',
      js ''hasOwnProperty'', js ''__lookupGetter__'', js ''__lookupSetter__'',
      js ''isPrototypeOf'', js ''propertyIsEnumerable'', js ''toString'', js ''valueOf'',
      js ''__proto__'', js ''toLocaleString'']"

definition property_read ::
  "(jsstring \<Rightarrow> jsstring) \<Rightarrow> (jsstring \<rightharpoonup> jsstring) \<Rightarrow> jsstring \<Rightarrow> jsstring option" where
  "property_read member_text obj key =
     (case obj key of
        Some v \<Rightarrow> Some v
      | None \<Rightarrow> if key \<in> set object_prototype_names then Some (member_text key) else None)"

definition mergeTemplateContent ::
  "(jsstring \<Rightarrow> jsstring) \<Rightarrow> jsstring \<Rightarrow> (jsstring \<rightharpoonup> jsstring) \<Rightarrow> jsstring" where
  "mergeTemplateContent member_text template values =
     replace_g (\<lambda>_ rawKey.
                  let key = trim rawKey
                  in case property_read member_text values key of
                       Some v \<Rightarrow> v
                     | None \<Rightarrow> LBRACE # key @ [RBRACE])
       template"

text \<open>Keeping the first occurrence of every element, in order.\<close>

fun first_occurrences :: "'a list \<Rightarrow> 'a list" where
  "first_occurrences [] = []"
| "first_occurrences (x # xs) = x # first_occurrences (filter (\<lambda>y. y \<noteq> x) xs)"

text \<open>
  The extraction in the words of the specification. \<open>spec_captures\<close> lists, from left to
  right, the texts that appear between \<^verbatim>\<open>{\<close> and \<^verbatim>\<open>}\<close>: at every opening brace, the
  non-empty run of code units other than braces after it, when a closing brace ends the
  run. \<open>spec_extract\<close> trims them, ignores the empty ones and keeps the first occurrence
  of each name.
\<close>

definition plain :: "jschar \<Rightarrow> bool" where
  "plain x = (x \<noteq> LBRACE \<and> x \<noteq> RBRACE)"

fun spec_captures :: "jsstring \<Rightarrow> jsstring list" where
  "spec_captures [] = []"
| "spec_captures (c # cs) =
     (if c = LBRACE \<and> takeWhile plain cs \<noteq> []
         \<and> (case dropWhile plain cs of [] \<Rightarrow> False | d # _ \<Rightarrow> d = RBRACE)
      then takeWhile plain cs # spec_captures cs
      else spec_captures cs)"

definition spec_extract :: "jsstring \<Rightarrow> jsstring list" where
  "spec_extract template =
     first_occurrences (filter truthy (map trim (spec_captures template)))"

text \<open>
  A text after whose last closing brace (or in all of which, when it has none) no opening
  brace stands: scanning it leaves no opening brace waiting for the closing brace of a
  later token.
\<close>

definition brace_closed :: "jsstring \<Rightarrow> bool" where
  "brace_closed pre = (LBRACE \<notin> set (takeWhile (\<lambda>x. x \<noteq> RBRACE) (rev pre)))"


section \<open>The workspace\<close>

datatype Platform = Twitter | LinkedIn | Instagram | Facebook | TikTok | YouTube

fun platform_str :: "Platform \<Rightarrow> jsstring" where
  "platform_str Twitter = js ''Twitter''"
| "platform_str LinkedIn = js ''LinkedIn''"
| "platform_str Instagram = js ''Instagram''"
| "platform_str Facebook = js ''Facebook''"
| "platform_str TikTok = js ''TikTok''"
| "platform_str YouTube = js ''YouTube''"

text \<open>\<^verbatim>\<open>Array.prototype.join\<close> and \<^verbatim>\<open>String.prototype.split(",")\<close>.\<close>

fun join :: "jsstring \<Rightarrow> jsstring list \<Rightarrow> jsstring" where
  "join sep [] = []"
| "join sep [x] = x"
| "join sep (x # y # ys) = x @ sep @ join sep (y # ys)"

fun split_comma :: "jsstring \<Rightarrow> jsstring list" where
  "split_comma [] = [[]]"
| "split_comma (c # cs) =
     (if c = COMMA then [] # split_comma cs
      else (c # hd (split_comma cs)) # tl (split_comma cs))"

text \<open>
  \<open>t_usageCount\<close> is a JavaScript number that holds a count, a natural number: it
  starts at 0 (or at the count of a seed template) and the only arithmetic on it is
  \<^verbatim>\<open>usageCount + 1\<close>. A number is an IEEE double, and \<open>number_add_one\<close> is the double
  that \<^verbatim>\<open>n + 1\<close> gives for a double \<open>n\<close> holding a natural number, rounding to nearest
  with ties to even: exact below \<open>2 ^ 53\<close>; between \<open>2 ^ 53\<close> and \<open>2 ^ 54\<close>, where the
  doubles are the even numbers, the one of \<open>n\<close> and \<open>n + 2\<close> whose half is even; and \<open>n\<close>
  from \<open>2 ^ 54\<close> on. Identifiers and timestamps are strings; an optional field is an
  \<open>option\<close>.
\<close>

definition number_add_one :: "nat \<Rightarrow> nat" where
  "number_add_one n =
     (if n < 2 ^ 53 then n + 1
      else if n < 2 ^ 54 then (if even (n div 2) then n else n + 2)
      else n)"

record Template =
  t_id :: jsstring
  t_name :: jsstring
  t_description :: jsstring
  t_platforms :: "Platform list"
  t_content :: jsstring
  t_tags :: "jsstring list"
  t_createdAt :: jsstring
  t_updatedAt :: jsstring
  t_usageCount :: nat

datatype PostStatus = Pending | Approved | Scheduled | Published

record ScheduledPost =
  p_id :: jsstring
  p_templateId :: jsstring
  p_templateName :: jsstring
  p_values :: "jsstring \<rightharpoonup> jsstring"
  p_finalMessage :: jsstring
  p_platforms :: "Platform list"
  p_scheduledAt :: "jsstring option"
  p_status :: PostStatus
  p_createdAt :: jsstring
  p_approvedAt :: "jsstring option"
  p_publishedAt :: "jsstring option"
  p_notes :: "jsstring option"
  p_mediaUrl :: "jsstring option"
  p_reviewers :: "jsstring list"

datatype Category = TemplateCategory | PostCategory

record ActivityEntry =
  a_id :: jsstring
  a_timestamp :: jsstring
  a_summary :: jsstring
  a_detail :: "jsstring option"
  a_category :: Category

record AppState =
  templates :: "Template list"
  posts :: "ScheduledPost list"
  activity :: "ActivityEntry list"

text \<open>An optional string is truthy when it is present and not empty.\<close>

fun truthy_opt :: "jsstring option \<Rightarrow> bool" where
  "truthy_opt None = False"
| "truthy_opt (Some v) = truthy v"

definition appendActivity :: "ActivityEntry list \<Rightarrow> ActivityEntry \<Rightarrow> ActivityEntry list" where
  "appendActivity entries entry = take 40 (entry # entries)"

subsection \<open>The template form\<close>

record TemplateFormState =
  f_id :: "jsstring option"
  f_name :: jsstring
  f_description :: jsstring
  f_content :: jsstring
  f_platforms :: "Platform list"
  f_tags :: jsstring

text \<open>
  \<open>handleSubmit\<close> of the template form builds the template that it hands to \<open>onSave\<close>, or
  returns early (\<open>None\<close>) when the name or the content is blank. \<open>timestamp\<close> is the clock
  reading and \<open>newId\<close> what \<^verbatim>\<open>createId()\<close> returns. The identifier is kept with \<^verbatim>\<open>??\<close>
  (any present string), while the creation time and the usage count are looked up under
  the test \<^verbatim>\<open>form.id ? ... : ...\<close>, which an empty identifier fails.
\<close>

definition handleSubmit ::
  "TemplateFormState \<Rightarrow> Template list \<Rightarrow> jsstring \<Rightarrow> jsstring \<Rightarrow> Template option" where
  "handleSubmit form tpls timestamp newId =
     (if \<not> truthy (trim (f_name form)) \<or> \<not> truthy (trim (f_content form)) then None
      else Some \<lparr>
        t_id = (case f_id form of Some i \<Rightarrow> i | None \<Rightarrow> newId),
        t_name = trim (f_name form),
        t_description =
          (if truthy (trim (f_description form)) then trim (f_description form)
           else js ''Untitled template''),
        t_platforms = f_platforms form,
        t_content = trim (f_content form),
        t_tags = filter truthy (map trim (split_comma (f_tags form))),
        t_createdAt =
          (if truthy_opt (f_id form)
           then (case find (\<lambda>tpl. Some (t_id tpl) = f_id form) tpls of
                   Some tpl \<Rightarrow> t_createdAt tpl
                 | None \<Rightarrow> timestamp)
           else timestamp),
        t_updatedAt = timestamp,
        t_usageCount =
          (if truthy_opt (f_id form)
           then (case find (\<lambda>tpl. Some (t_id tpl) = f_id form) tpls of
                   Some tpl \<Rightarrow> t_usageCount tpl
                 | None \<Rightarrow> 0)
           else 0) \<rparr>)"

subsection \<open>The state updates of the page\<close>

text \<open>
  Each operation is the function that the source passes to \<open>setState\<close>: from the
  previous state \<open>prev\<close> to the next. What the source reads from the outside is a
  parameter: \<open>eid\<close> is the identifier that \<^verbatim>\<open>createId()\<close> returns for the activity entry,
  \<open>now\<close> and \<open>timestamp\<close> are clock readings.
\<close>

definition upsertTemplate :: "AppState \<Rightarrow> Template \<Rightarrow> jsstring \<Rightarrow> AppState" where
  "upsertTemplate prev template eid =
     (let exists = list_ex (\<lambda>item. t_id item = t_id template) (templates prev);
          tpls = (if exists
                  then map (\<lambda>item. if t_id item = t_id template then template else item)
                         (templates prev)
                  else template # templates prev);
          activityEntry =
            (if exists
             then \<lparr> a_id = eid, a_timestamp = t_updatedAt template,
                    a_summary = js ''Template updated: '' @ t_name template,
                    a_detail = Some (js ''Structure refreshed''),
                    a_category = TemplateCategory \<rparr>
             else \<lparr> a_id = eid, a_timestamp = t_createdAt template,
                    a_summary = js ''New template: '' @ t_name template,
                    a_detail = Some (js ''Platforms: ''
                                 @ join (js '', '') (map platform_str (t_platforms template))),
                    a_category = TemplateCategory \<rparr>)
      in prev\<lparr> templates := tpls, activity := appendActivity (activity prev) activityEntry \<rparr>)"

definition removeTemplate :: "AppState \<Rightarrow> jsstring \<Rightarrow> jsstring \<Rightarrow> jsstring \<Rightarrow> AppState" where
  "removeTemplate prev ident eid now =
     prev\<lparr> templates := filter (\<lambda>template. t_id template \<noteq> ident) (templates prev),
           activity := appendActivity (activity prev)
             \<lparr> a_id = eid, a_timestamp = now, a_summary = js ''Template archived'',
               a_detail = Some (js ''Removed from library''),
               a_category = TemplateCategory \<rparr> \<rparr>"

definition addPost :: "AppState \<Rightarrow> ScheduledPost \<Rightarrow> jsstring \<Rightarrow> jsstring \<Rightarrow> AppState" where
  "addPost prev post eid now =
     prev\<lparr> posts := post # posts prev,
           templates := map (\<lambda>template.
                               if t_id template = p_templateId post
                               then template\<lparr> t_usageCount := number_add_one (t_usageCount template) \<rparr>
                               else template)
                          (templates prev),
           activity := appendActivity (activity prev)
             \<lparr> a_id = eid, a_timestamp = now,
               a_summary = js ''Staged: '' @ p_templateName post,
               a_detail = Some (js ''Awaiting approval for ''
                            @ join (js '', '') (map platform_str (p_platforms post))),
               a_category = PostCategory \<rparr> \<rparr>"

definition setPostStatus :: "AppState \<Rightarrow> jsstring \<Rightarrow> PostStatus \<Rightarrow> jsstring \<Rightarrow> AppState" where
  "setPostStatus prev ident status timestamp =
     prev\<lparr> posts := map (\<lambda>post.
                           if p_id post \<noteq> ident then post
                           else if status = Approved
                             then post\<lparr> p_status := status, p_approvedAt := Some timestamp \<rparr>
                           else if status = Published
                             then post\<lparr> p_status := status, p_publishedAt := Some timestamp \<rparr>
                           else if status = Scheduled
                             then post\<lparr> p_status := status \<rparr>
                           else post\<lparr> p_status := status \<rparr>)
                      (posts prev) \<rparr>"

definition deletePost :: "AppState \<Rightarrow> jsstring \<Rightarrow> jsstring \<Rightarrow> jsstring \<Rightarrow> AppState" where
  "deletePost prev ident eid now =
     prev\<lparr> posts := filter (\<lambda>post. p_id post \<noteq> ident) (posts prev),
           activity := appendActivity (activity prev)
             \<lparr> a_id = eid, a_timestamp = now, a_summary = js ''Post removed'',
               a_detail = Some (js ''Cleared from queue''),
               a_category = PostCategory \<rparr> \<rparr>"

text \<open>
  The three handlers look the post up in \<open>state\<close>, the state of the render they were
  created in, and update \<open>prev\<close>, the state that \<open>setState\<close> hands to the updater. A
  handler of the current render has \<open>state = prev\<close>. None of them reads the status of
  the post.
\<close>

definition handleApprove ::
  "AppState \<Rightarrow> AppState \<Rightarrow> jsstring \<Rightarrow> jsstring \<Rightarrow> jsstring \<Rightarrow> AppState" where
  "handleApprove state prev ident timestamp eid =
     (case find (\<lambda>item. p_id item = ident) (posts state) of
        None \<Rightarrow> setPostStatus prev ident Approved timestamp
      | Some post \<Rightarrow>
          prev\<lparr> posts := map (\<lambda>item.
                                if p_id item = ident
                                then item\<lparr> p_status := Approved, p_approvedAt := Some timestamp \<rparr>
                                else item)
                           (posts prev),
                activity := appendActivity (activity prev)
                  \<lparr> a_id = eid, a_timestamp = timestamp,
                    a_summary = js ''Approved: '' @ p_templateName post,
                    a_detail = Some (js ''Ready for ''
                                 @ join (js '', '') (map platform_str (p_platforms post))),
                    a_category = PostCategory \<rparr> \<rparr>)"

definition handlePublish ::
  "AppState \<Rightarrow> AppState \<Rightarrow> jsstring \<Rightarrow> jsstring \<Rightarrow> jsstring \<Rightarrow> AppState" where
  "handlePublish state prev ident timestamp eid =
     (case find (\<lambda>item. p_id item = ident) (posts state) of
        None \<Rightarrow> setPostStatus prev ident Published timestamp
      | Some post \<Rightarrow>
          prev\<lparr> posts := map (\<lambda>item.
                                if p_id item = ident
                                then item\<lparr> p_status := Published, p_publishedAt := Some timestamp \<rparr>
                                else item)
                           (posts prev),
                activity := appendActivity (activity prev)
                  \<lparr> a_id = eid, a_timestamp = timestamp,
                    a_summary = js ''Published: '' @ p_templateName post,
                    a_detail = Some (js ''Shipped to ''
                                 @ join (js '', '') (map platform_str (p_platforms post))),
                    a_category = PostCategory \<rparr> \<rparr>)"

text \<open>
  \<open>formatDateTime\<close> renders a timestamp with the clock library and the locale of the
  browser; it is a parameter.
\<close>

definition handleSchedule ::
  "(jsstring option \<Rightarrow> jsstring) \<Rightarrow> AppState \<Rightarrow> AppState \<Rightarrow> jsstring \<Rightarrow> jsstring \<Rightarrow> jsstring
   \<Rightarrow> AppState" where
  "handleSchedule formatDateTime state prev ident timestamp eid =
     (case find (\<lambda>item. p_id item = ident) (posts state) of
        None \<Rightarrow> setPostStatus prev ident Scheduled timestamp
      | Some post \<Rightarrow>
          prev\<lparr> posts := map (\<lambda>item.
                                if p_id item = ident then item\<lparr> p_status := Scheduled \<rparr>
                                else item)
                           (posts prev),
                activity := appendActivity (activity prev)
                  \<lparr> a_id = eid, a_timestamp = timestamp,
                    a_summary = js ''Scheduled: '' @ p_templateName post,
                    a_detail =
                      (if truthy_opt (p_scheduledAt post)
                       then Some (js ''Publishes '' @ formatDateTime (p_scheduledAt post))
                       else None),
                    a_category = PostCategory \<rparr> \<rparr>)"

subsection \<open>Runs of the page\<close>

text \<open>
  One user action with what it reads from the outside. The template form saves through
  \<open>upsertTemplate\<close>, the composer stages through \<open>addPost\<close>, and the buttons of the
  approval queue call the three handlers and \<open>deletePost\<close> with the identifier of the
  post they belong to.
\<close>

datatype action =
    SaveTemplate Template jsstring
  | DeleteTemplate jsstring jsstring jsstring
  | Compose ScheduledPost jsstring jsstring
  | Approve jsstring jsstring jsstring
  | Schedule jsstring jsstring jsstring
  | Publish jsstring jsstring jsstring
  | Remove jsstring jsstring jsstring

fun step :: "(jsstring option \<Rightarrow> jsstring) \<Rightarrow> AppState \<Rightarrow> action \<Rightarrow> AppState" where
  "step fmt s (SaveTemplate template eid) = upsertTemplate s template eid"
| "step fmt s (DeleteTemplate ident eid now) = removeTemplate s ident eid now"
| "step fmt s (Compose post eid now) = addPost s post eid now"
| "step fmt s (Approve ident timestamp eid) = handleApprove s s ident timestamp eid"
| "step fmt s (Schedule ident timestamp eid) = handleSchedule fmt s s ident timestamp eid"
| "step fmt s (Publish ident timestamp eid) = handlePublish s s ident timestamp eid"
| "step fmt s (Remove ident eid now) = deletePost s ident eid now"

fun run :: "(jsstring option \<Rightarrow> jsstring) \<Rightarrow> AppState \<Rightarrow> action list \<Rightarrow> AppState" where
  "run fmt s [] = s"
| "run fmt s (a # as) = run fmt (step fmt s a) as"

text \<open>The states that a run goes through, the first one included.\<close>

fun trace :: "(jsstring option \<Rightarrow> jsstring) \<Rightarrow> AppState \<Rightarrow> action list \<Rightarrow> AppState list" where
  "trace fmt s [] = [s]"
| "trace fmt s (a # as) = s # trace fmt (step fmt s a) as"

text \<open>
  What the page offers in a state. The approval queue renders the button
  \<^emph>\<open>Approve\<close> for a post whose status is pending, \<^emph>\<open>Mark as scheduled\<close> for an approved
  post with a truthy \<open>scheduledAt\<close>, \<^emph>\<open>Publish now\<close> for an approved or scheduled post and
  \<^emph>\<open>Remove\<close> for every post. The composer stages a post with the status pending under
  an identifier fresh from \<^verbatim>\<open>createId()\<close>. The template form is always there.
\<close>

fun offered :: "AppState \<Rightarrow> action \<Rightarrow> bool" where
  "offered s (SaveTemplate template eid) = True"
| "offered s (DeleteTemplate ident eid now) = True"
| "offered s (Compose post eid now) =
     (p_status post = Pending \<and> \<not> list_ex (\<lambda>item. p_id item = p_id post) (posts s))"
| "offered s (Approve ident timestamp eid) =
     list_ex (\<lambda>post. p_id post = ident \<and> p_status post = Pending) (posts s)"
| "offered s (Schedule ident timestamp eid) =
     list_ex (\<lambda>post. p_id post = ident \<and> p_status post = Approved
                     \<and> truthy_opt (p_scheduledAt post)) (posts s)"
| "offered s (Publish ident timestamp eid) =
     list_ex (\<lambda>post. p_id post = ident
                     \<and> (p_status post = Approved \<or> p_status post = Scheduled)) (posts s)"
| "offered s (Remove ident eid now) = list_ex (\<lambda>post. p_id post = ident) (posts s)"

fun offered_run :: "(jsstring option \<Rightarrow> jsstring) \<Rightarrow> AppState \<Rightarrow> action list \<Rightarrow> bool" where
  "offered_run fmt s [] = True"
| "offered_run fmt s (a # as) = (offered s a \<and> offered_run fmt (step fmt s a) as)"

text \<open>The order of the workflow: pending, approved, scheduled, published.\<close>

fun rank :: "PostStatus \<Rightarrow> nat" where
  "rank Pending = 0"
| "rank Approved = 1"
| "rank Scheduled = 2"
| "rank Published = 3"

definition find_post :: "AppState \<Rightarrow> jsstring \<Rightarrow> ScheduledPost option" where
  "find_post s ident = find (\<lambda>item. p_id item = ident) (posts s)"

definition find_template :: "AppState \<Rightarrow> jsstring \<Rightarrow> Template option" where
  "find_template s ident = find (\<lambda>item. t_id item = ident) (templates s)"

text \<open>
  One step in the life of the post \<open>ident\<close>, from the state \<open>s\<close> to the state \<open>s'\<close>: the
  status does not go back, and it becomes scheduled only when \<open>scheduledAt\<close> was set
  before. A state without the post is outside its life.
\<close>

definition forward :: "jsstring \<Rightarrow> AppState \<Rightarrow> AppState \<Rightarrow> bool" where
  "forward ident s s' =
     (case (find_post s ident, find_post s' ident) of
        (Some p, Some p') \<Rightarrow>
          rank (p_status p) \<le> rank (p_status p')
          \<and> (p_status p' \<noteq> Scheduled \<or> p_status p = Scheduled \<or> truthy_opt (p_scheduledAt p))
      | _ \<Rightarrow> True)"

text \<open>The actions on the template \<open>ident\<close> itself, and the compositions from it.\<close>

fun edits_template :: "jsstring \<Rightarrow> action \<Rightarrow> bool" where
  "edits_template ident (SaveTemplate template eid) = (t_id template = ident)"
| "edits_template ident (DeleteTemplate ident' eid now) = (ident' = ident)"
| "edits_template ident _ = False"

fun composes_from :: "jsstring \<Rightarrow> action \<Rightarrow> bool" where
  "composes_from ident (Compose post eid now) = (p_templateId post = ident)"
| "composes_from ident _ = False"

text \<open>
  The identifiers of the templates of a state that the page produces: they are
  distinct, and none is empty, as each comes from \<^verbatim>\<open>createId()\<close>, which returns a UUID
  or a text with a hyphen in it.
\<close>

definition template_ids_ok :: "AppState \<Rightarrow> bool" where
  "template_ids_ok s =
     (distinct (map t_id (templates s)) \<and> list_all (\<lambda>t. truthy (t_id t)) (templates s))"

text \<open>What a post carries from its composition: the frozen part.\<close>

definition snapshot ::
  "ScheduledPost \<Rightarrow> jsstring \<times> jsstring \<times> (jsstring \<rightharpoonup> jsstring) \<times> jsstring \<times> jsstring" where
  "snapshot post =
     (p_templateId post, p_templateName post, p_values post, p_finalMessage post,
      p_createdAt post)"

subsection \<open>Example data\<close>

definition demo_entry :: ActivityEntry where
  "demo_entry = \<lparr> a_id = js ''e0'', a_timestamp = js ''2024-01-01T00:00:00.000Z'',
                  a_summary = js ''Staged: Launch'', a_detail = None,
                  a_category = PostCategory \<rparr>"

definition demo_post :: "jsstring \<Rightarrow> PostStatus \<Rightarrow> jsstring option \<Rightarrow> ScheduledPost" where
  "demo_post ident status scheduledAt =
     \<lparr> p_id = ident, p_templateId = js ''t1'', p_templateName = js ''Launch'',
       p_values = [js ''hook'' \<mapsto> js ''Hi''], p_finalMessage = js ''Hi'',
       p_platforms = [Twitter], p_scheduledAt = scheduledAt, p_status = status,
       p_createdAt = js ''2024-01-01T00:00:00.000Z'', p_approvedAt = None,
       p_publishedAt = None, p_notes = None, p_mediaUrl = None, p_reviewers = [] \<rparr>"

definition demo_template :: "jsstring \<Rightarrow> nat \<Rightarrow> Template" where
  "demo_template ident n =
     \<lparr> t_id = ident, t_name = js ''Launch'', t_description = js ''Announce'',
       t_platforms = [Twitter, LinkedIn], t_content = js ''{hook}'',
       t_tags = [js ''#LaunchDay''], t_createdAt = js ''2023-12-01T00:00:00.000Z'',
       t_updatedAt = js ''2023-12-02T00:00:00.000Z'', t_usageCount = n \<rparr>"

text \<open>The texts of the inherited members as V8 prints them.\<close>

definition demo_member_text :: "jsstring \<Rightarrow> jsstring" where
  "demo_member_text key =
     (if key = js ''constructor'' then js ''function Object() { [native code] }''
      else if key = js ''__proto__'' then js ''[object Object]''
      else js ''function '' @ key @ js ''() { [native code] }'')"

definition demo_state :: AppState where
  "demo_state =
     \<lparr> templates = [demo_template (js ''t2'') 5, demo_template (js ''t1'') 3],
       posts = [], activity = [] \<rparr>"

definition demo_actions :: "action list" where
  "demo_actions =
     [Compose (demo_post (js ''p1'') Pending (Some (js ''2024-02-01T10:00''))) (js ''e1'')
        (js ''n1''),
      SaveTemplate (demo_template (js ''t2'') 5) (js ''e2''),
      Approve (js ''p1'') (js ''n3'') (js ''e3''),
      Compose (demo_post (js ''p2'') Pending None) (js ''e4'') (js ''n4''),
      Schedule (js ''p1'') (js ''n5'') (js ''e5''),
      Publish (js ''p1'') (js ''n6'') (js ''e6''),
      Remove (js ''p2'') (js ''e7'') (js ''n7'')]"

definition demo_form :: "jsstring \<Rightarrow> TemplateFormState" where
  "demo_form ident =
     \<lparr> f_id = Some ident, f_name = js '' Launch 2 '', f_description = js '' '',
       f_content = js ''{hook} now'', f_platforms = [Facebook], f_tags = js ''#a, #b,,'' \<rparr>"

definition demo_payload :: "jsstring \<Rightarrow> jsstring \<Rightarrow> nat \<Rightarrow> Template" where
  "demo_payload ident createdAt n =
     \<lparr> t_id = ident, t_name = js ''Launch 2'', t_description = js ''Untitled template'',
       t_platforms = [Facebook], t_content = js ''{hook} now'',
       t_tags = [js ''#a'', js ''#b''], t_createdAt = createdAt,
       t_updatedAt = js ''2024-03-01T00:00:00.000Z'', t_usageCount = n \<rparr>"

definition demo_published :: AppState where
  "demo_published =
     \<lparr> templates = [demo_template (js ''t1'') 3],
       posts = [demo_post (js ''p1'') Published None], activity = [demo_entry] \<rparr>"

definition demo_approved :: AppState where
  "demo_approved =
     \<lparr> templates = [demo_template (js ''t1'') 3],
       posts = [demo_post (js ''p1'') Approved None], activity = [demo_entry] \<rparr>"

section \<open>The activity journal\<close>

lemma fold_appendActivity:
  "fold (\<lambda>entry entries. appendActivity entries entry) es (take 40 j) = take 40 (rev es @ j)"
proof (induction es arbitrary: j)
  case Nil
  then show ?case by simp
next
  case (Cons e es)
  have "appendActivity (take 40 j) e = take 40 (e # j)"
    by (simp add: appendActivity_def)
  then show ?case using Cons.IH [of "e # j"] by simp
qed

lemma fold_appendActivity_any:
  "es \<noteq> [] \<Longrightarrow>
   fold (\<lambda>entry entries. appendActivity entries entry) es j = take 40 (rev es @ j)"
proof (induction es arbitrary: j)
  case Nil
  then show ?case by simp
next
  case (Cons e es)
  have "fold (\<lambda>entry entries. appendActivity entries entry) es (take 40 (e # j))
        = take 40 (rev es @ e # j)"
    by (rule fold_appendActivity)
  then show ?case by (simp add: appendActivity_def)
qed

text \<open>
  Claim C8. \<open>appendActivity\<close> puts the new entry in front and keeps the first 40 entries.
  From any journal, appending the fifty entries \<open>f 0\<close>, ..., \<open>f 49\<close> one at a time leaves
  exactly the forty appended last, the newest first: \<open>f 49\<close>, \<open>f 48\<close>, ..., \<open>f 10\<close>.
\<close>

theorem journal_bound:
  "appendActivity entries entry = take 40 (entry # entries)
   \<and> length (appendActivity entries entry) = min 40 (Suc (length entries))
   \<and> fold (\<lambda>entry entries. appendActivity entries entry) (map f [0..<50]) entries
       = map f (rev [10..<50])"
proof -
  have split: "[0..<50] = [0..<10] @ [10..<50]"
    using upt_add_eq_append [of 0 10 40] by simp
  have "fold (\<lambda>entry entries. appendActivity entries entry) (map f [0..<50]) entries
        = take 40 (rev (map f [0..<50]) @ entries)"
    by (rule fold_appendActivity_any) simp
  also have "rev (map f [0..<50]) @ entries
             = map f (rev [10..<50]) @ (map f (rev [0..<10]) @ entries)"
    by (simp only: split rev_append rev_map map_append append_assoc)
  also have "take 40 (map f (rev [10..<50]) @ (map f (rev [0..<10]) @ entries))
             = map f (rev [10..<50])"
    by simp
  finally show ?thesis
    by (simp add: appendActivity_def)
qed

section \<open>What the operations leave alone\<close>

lemma templates_setPostStatus [simp]: "templates (setPostStatus prev i st ts) = templates prev"
  and activity_setPostStatus [simp]: "activity (setPostStatus prev i st ts) = activity prev"
  by (simp_all add: setPostStatus_def)

lemma templates_handleApprove [simp]:
  "templates (handleApprove state prev i ts e) = templates prev"
  by (simp add: handleApprove_def split: option.split)

lemma templates_handlePublish [simp]:
  "templates (handlePublish state prev i ts e) = templates prev"
  by (simp add: handlePublish_def split: option.split)

lemma templates_handleSchedule [simp]:
  "templates (handleSchedule fmt state prev i ts e) = templates prev"
  by (simp add: handleSchedule_def split: option.split)

lemma templates_deletePost [simp]: "templates (deletePost prev i e n) = templates prev"
  by (simp add: deletePost_def)

lemma snapshot_update [simp]:
  "snapshot (post\<lparr> p_status := st \<rparr>) = snapshot post"
  "snapshot (post\<lparr> p_approvedAt := a \<rparr>) = snapshot post"
  "snapshot (post\<lparr> p_publishedAt := b \<rparr>) = snapshot post"
  by (simp_all add: snapshot_def)

lemma find_None_filter_id: "find P xs = None \<Longrightarrow> filter (\<lambda>item. \<not> P item) xs = xs"
  by (induction xs) (auto split: if_splits)

text \<open>
  Claim C9. Deleting or saving a template leaves the posts as they are, and no status operation
  (\<open>setPostStatus\<close> and the three handlers, from any render state) changes the template
  identifier, the template name, the values, the final message or the creation time of
  any post.
\<close>

theorem posts_frozen:
  "posts (removeTemplate prev ident eid now) = posts prev
   \<and> posts (upsertTemplate prev template eid) = posts prev
   \<and> map snapshot (posts (setPostStatus prev ident status timestamp)) = map snapshot (posts prev)
   \<and> map snapshot (posts (handleApprove state prev ident timestamp eid))
       = map snapshot (posts prev)
   \<and> map snapshot (posts (handleSchedule fmt state prev ident timestamp eid))
       = map snapshot (posts prev)
   \<and> map snapshot (posts (handlePublish state prev ident timestamp eid))
       = map snapshot (posts prev)"
proof -
  have "map snapshot (posts (setPostStatus prev ident st timestamp)) = map snapshot (posts prev)"
    for st
    by (simp add: setPostStatus_def o_def)
  then show ?thesis
    by (simp add: removeTemplate_def upsertTemplate_def Let_def handleApprove_def
        handleSchedule_def handlePublish_def o_def split: option.split)
qed

section \<open>Deleting a post\<close>

text \<open>
  Claim C10, as amended. \<open>deletePost\<close> always puts the entry \<^emph>\<open>Post removed\<close> in front of
  the journal and keeps the first 40 entries, so the journal has one entry more only
  while it holds fewer than 40; when no post has the identifier, the posts stay as
  they are.
\<close>

theorem deletePost_journal:
  "activity (deletePost prev ident eid now)
     = take 40 (\<lparr> a_id = eid, a_timestamp = now, a_summary = js ''Post removed'',
                  a_detail = Some (js ''Cleared from queue''), a_category = PostCategory \<rparr>
                # activity prev)
   \<and> length (activity (deletePost prev ident eid now)) = min 40 (Suc (length (activity prev)))
   \<and> (find_post prev ident = None \<longrightarrow> posts (deletePost prev ident eid now) = posts prev)"
  using find_None_filter_id [of "\<lambda>item. p_id item = ident" "posts prev"]
  by (simp add: deletePost_def appendActivity_def find_post_def)

theorem deletePost_journal_witness:
  "find_post \<lparr> templates = [], posts = [demo_post (js ''p2'') Pending None],
               activity = [demo_entry] \<rparr> (js ''p1'') = None
   \<and> posts (deletePost \<lparr> templates = [], posts = [demo_post (js ''p2'') Pending None],
                        activity = [demo_entry] \<rparr> (js ''p1'') (js ''e1'') (js ''t1''))
       = [demo_post (js ''p2'') Pending None]
   \<and> length (activity (deletePost \<lparr> templates = [],
                posts = [demo_post (js ''p2'') Pending None], activity = [demo_entry] \<rparr>
                (js ''p1'') (js ''e1'') (js ''t1''))) = 2"
  using deletePost_journal [of "\<lparr> templates = [],
      posts = [demo_post (js ''p2'') Pending None], activity = [demo_entry] \<rparr>"
      "js ''p1''" "js ''e1''" "js ''t1''"]
  by (simp add: find_post_def demo_post_def js_def)

text \<open>
  The claim as stated fails on a full journal: with 40 entries, deleting a post that
  does not exist leaves 40 entries, not 41.
\<close>

theorem deletePost_full_journal_counterexample:
  "find_post \<lparr> templates = [], posts = [], activity = replicate 40 demo_entry \<rparr> (js ''p1'')
     = None
   \<and> length (activity (deletePost
         \<lparr> templates = [], posts = [], activity = replicate 40 demo_entry \<rparr>
         (js ''p1'') (js ''e1'') (js ''t1'')))
       \<noteq> length (activity \<lparr> templates = [], posts = [], activity = replicate 40 demo_entry \<rparr>)
         + 1"
  by (simp add: deletePost_def appendActivity_def find_post_def)

section \<open>The usage counter\<close>

lemma find_map_same:
  "(\<And>x. x \<in> set xs \<Longrightarrow> P (f x) = P x) \<Longrightarrow> find P (map f xs) = map_option f (find P xs)"
  by (induction xs) auto

lemma find_Some_holds: "find P xs = Some x \<Longrightarrow> P x \<and> x \<in> set xs"
  by (induction xs) (auto split: if_splits)

lemma distinct_map_unique:
  "distinct (map f xs) \<Longrightarrow> x \<in> set xs \<Longrightarrow> y \<in> set xs \<Longrightarrow> f x = f y \<Longrightarrow> x = y"
  by (meson distinct_map inj_onD)

lemma find_filter_keep:
  "(\<And>x. x \<in> set xs \<Longrightarrow> P x \<Longrightarrow> Q x) \<Longrightarrow> find P (filter Q xs) = find P xs"
  by (induction xs) auto

lemma find_template_addPost:
  "find_template (addPost s post eid now) ident
   = map_option (\<lambda>t. if p_templateId post = ident
                       then t\<lparr> t_usageCount := number_add_one (t_usageCount t) \<rparr> else t)
       (find_template s ident)"
proof -
  let ?f = "\<lambda>template. if t_id template = p_templateId post
                         then template\<lparr> t_usageCount := number_add_one (t_usageCount template) \<rparr>
                         else template"
  have "find (\<lambda>item. t_id item = ident) (map ?f (templates s))
        = map_option ?f (find (\<lambda>item. t_id item = ident) (templates s))"
    by (rule find_map_same) simp
  moreover have "map_option ?f (find (\<lambda>item. t_id item = ident) (templates s))
     = map_option (\<lambda>t. if p_templateId post = ident
                         then t\<lparr> t_usageCount := number_add_one (t_usageCount t) \<rparr> else t)
         (find (\<lambda>item. t_id item = ident) (templates s))"
  proof (cases "find (\<lambda>item. t_id item = ident) (templates s)")
    case None
    then show ?thesis by simp
  next
    case (Some a)
    then have "t_id a = ident" by (auto dest: find_Some_holds)
    with Some show ?thesis by auto
  qed
  ultimately show ?thesis
    by (simp add: find_template_def addPost_def)
qed

lemma find_template_upsert_other:
  assumes "t_id template \<noteq> ident"
  shows "find_template (upsertTemplate s template eid) ident = find_template s ident"
proof -
  let ?f = "\<lambda>item. if t_id item = t_id template then template else item"
  have "find (\<lambda>item. t_id item = ident) (map ?f (templates s))
        = map_option ?f (find (\<lambda>item. t_id item = ident) (templates s))"
    by (rule find_map_same) (use assms in auto)
  also have "\<dots> = find (\<lambda>item. t_id item = ident) (templates s)"
  proof (cases "find (\<lambda>item. t_id item = ident) (templates s)")
    case None
    then show ?thesis by simp
  next
    case (Some a)
    then have "t_id a = ident" by (auto dest: find_Some_holds)
    with Some assms show ?thesis by auto
  qed
  finally show ?thesis using assms
    by (simp add: find_template_def upsertTemplate_def Let_def)
qed

lemma find_template_remove_other:
  assumes "ident' \<noteq> ident"
  shows "find_template (removeTemplate s ident' eid now) ident = find_template s ident"
  using assms find_filter_keep [of "templates s" "\<lambda>item. t_id item = ident" "\<lambda>template. t_id template \<noteq> ident'"]
  by (auto simp: find_template_def removeTemplate_def)

lemma usage_step:
  assumes "\<not> edits_template ident a"
  shows "map_option t_usageCount (find_template (step fmt s a) ident)
         = map_option (\<lambda>n. if composes_from ident a then number_add_one n else n)
             (map_option t_usageCount (find_template s ident))"
proof (cases a)
  case (SaveTemplate template eid)
  with assms show ?thesis
    by (simp add: find_template_upsert_other option.map_comp o_def option.map_ident)
next
  case (DeleteTemplate i eid now)
  with assms show ?thesis
    by (simp add: find_template_remove_other option.map_comp o_def option.map_ident)
next
  case (Compose post eid now)
  then show ?thesis
    by (cases "find_template s ident") (simp_all add: find_template_addPost)
qed (simp_all add: find_template_def option.map_comp o_def option.map_ident)

lemma number_add_one_exact: "n < 2 ^ 53 \<Longrightarrow> number_add_one n = n + 1"
  by (simp add: number_add_one_def)

text \<open>
  Claim C6, as amended. \<open>addPost\<close> leaves the usage count of every template with another
  identifier as it is and adds one to the count of the templates with the identifier
  of the post's template, exactly so while that count is below \<open>2 ^ 53\<close>. So, over any
  run with no save and no deletion of the template \<open>ident\<close> itself (everything else may
  be interleaved), the usage count of that template grows by exactly the number \<open>N\<close> of
  posts composed from it, as long as the count plus \<open>N\<close> does not exceed \<open>2 ^ 53\<close>.
\<close>

theorem usage_counts_compositions:
  "map t_usageCount (templates (addPost s post eid now))
     = map (\<lambda>t. if t_id t = p_templateId post then number_add_one (t_usageCount t)
                else t_usageCount t)
         (templates s)
   \<and> ((\<forall>t \<in> set (templates s). t_id t = p_templateId post \<longrightarrow> t_usageCount t < 2 ^ 53) \<longrightarrow>
        map t_usageCount (templates (addPost s post eid now))
        = map (\<lambda>t. if t_id t = p_templateId post then t_usageCount t + 1 else t_usageCount t)
            (templates s))
   \<and> map t_id (templates (addPost s post eid now)) = map t_id (templates s)
   \<and> (find_template s ident = Some t \<and> \<not> list_ex (edits_template ident) acts
        \<and> t_usageCount t + length (filter (composes_from ident) acts) \<le> 2 ^ 53 \<longrightarrow>
        map_option t_usageCount (find_template (run fmt s acts) ident)
        = Some (t_usageCount t + length (filter (composes_from ident) acts)))"
proof -
  have run: "find_template s ident = Some t \<Longrightarrow> \<not> list_ex (edits_template ident) acts \<Longrightarrow>
        t_usageCount t + length (filter (composes_from ident) acts) \<le> 2 ^ 53 \<Longrightarrow>
        map_option t_usageCount (find_template (run fmt s acts) ident)
        = Some (t_usageCount t + length (filter (composes_from ident) acts))"
  proof (induction acts arbitrary: s t)
    case Nil
    then show ?case by simp
  next
    case (Cons a acts)
    from Cons.prems have na: "\<not> edits_template ident a"
      and rest: "\<not> list_ex (edits_template ident) acts"
      by simp_all
    from usage_step [OF na, of fmt s] Cons.prems(1)
    obtain t' where t': "find_template (step fmt s a) ident = Some t'"
      and n: "t_usageCount t'
              = (if composes_from ident a then number_add_one (t_usageCount t)
                 else t_usageCount t)"
      by (cases "find_template (step fmt s a) ident") auto
    show ?case
    proof (cases "composes_from ident a")
      case True
      with Cons.prems(3) have "t_usageCount t < 2 ^ 53" by simp
      with n True have n': "t_usageCount t' = t_usageCount t + 1"
        by (simp add: number_add_one_exact)
      with Cons.prems(3) True
      have "t_usageCount t' + length (filter (composes_from ident) acts) \<le> 2 ^ 53"
        by simp
      from Cons.IH [OF t' rest this] n' True show ?thesis by simp
    next
      case False
      with n have n': "t_usageCount t' = t_usageCount t" by simp
      with Cons.prems(3) False
      have "t_usageCount t' + length (filter (composes_from ident) acts) \<le> 2 ^ 53"
        by simp
      from Cons.IH [OF t' rest this] n' False show ?thesis by simp
    qed
  qed
  have any: "map t_usageCount (templates (addPost s post eid now))
     = map (\<lambda>t. if t_id t = p_templateId post then number_add_one (t_usageCount t)
                else t_usageCount t)
         (templates s)"
    by (simp add: addPost_def o_def if_distrib cong: if_cong)
  have below: "map t_usageCount (templates (addPost s post eid now))
        = map (\<lambda>t. if t_id t = p_templateId post then t_usageCount t + 1 else t_usageCount t)
            (templates s)"
    if "\<forall>t \<in> set (templates s). t_id t = p_templateId post \<longrightarrow> t_usageCount t < 2 ^ 53"
    unfolding any using that by (intro map_cong refl) (simp add: number_add_one_exact)
  have ids: "map t_id (templates (addPost s post eid now)) = map t_id (templates s)"
    by (simp add: addPost_def o_def if_distrib cong: if_cong)
  show ?thesis
  proof (intro conjI impI)
    show "map t_usageCount (templates (addPost s post eid now))
     = map (\<lambda>t. if t_id t = p_templateId post then number_add_one (t_usageCount t)
                else t_usageCount t)
         (templates s)"
      by (rule any)
  next
    assume "\<forall>t \<in> set (templates s). t_id t = p_templateId post \<longrightarrow> t_usageCount t < 2 ^ 53"
    then show "map t_usageCount (templates (addPost s post eid now))
        = map (\<lambda>t. if t_id t = p_templateId post then t_usageCount t + 1 else t_usageCount t)
            (templates s)"
      by (rule below)
  next
    show "map t_id (templates (addPost s post eid now)) = map t_id (templates s)"
      by (rule ids)
  next
    assume "find_template s ident = Some t \<and> \<not> list_ex (edits_template ident) acts
        \<and> t_usageCount t + length (filter (composes_from ident) acts) \<le> 2 ^ 53"
    then show "map_option t_usageCount (find_template (run fmt s acts) ident)
        = Some (t_usageCount t + length (filter (composes_from ident) acts))"
      by (intro run) simp_all
  qed
qed

theorem usage_counts_compositions_witness:
  "find_template demo_state (js ''t1'') = Some (demo_template (js ''t1'') 3)
   \<and> \<not> list_ex (edits_template (js ''t1'')) demo_actions
   \<and> length (filter (composes_from (js ''t1'')) demo_actions) = 2
   \<and> t_usageCount (demo_template (js ''t1'') 3)
        + length (filter (composes_from (js ''t1'')) demo_actions) \<le> 2 ^ 53
   \<and> map_option t_usageCount (find_template (run (\<lambda>_. []) demo_state demo_actions) (js ''t1''))
       = Some 5"
proof -
  have t: "find_template demo_state (js ''t1'') = Some (demo_template (js ''t1'') 3)"
    by (simp add: find_template_def demo_state_def demo_template_def js_def)
  have e: "\<not> list_ex (edits_template (js ''t1'')) demo_actions"
    by (simp add: demo_actions_def demo_template_def js_def)
  have n: "length (filter (composes_from (js ''t1'')) demo_actions) = 2"
    by (simp add: demo_actions_def demo_post_def)
  have u: "t_usageCount (demo_template (js ''t1'') 3) = 3"
    by (simp add: demo_template_def)
  have b: "t_usageCount (demo_template (js ''t1'') 3)
        + length (filter (composes_from (js ''t1'')) demo_actions) \<le> 2 ^ 53"
    by (simp only: n u) simp
  have h: "find_template demo_state (js ''t1'') = Some (demo_template (js ''t1'') 3)
      \<and> \<not> list_ex (edits_template (js ''t1'')) demo_actions
      \<and> t_usageCount (demo_template (js ''t1'') 3)
          + length (filter (composes_from (js ''t1'')) demo_actions) \<le> 2 ^ 53"
    by (intro conjI) (rule t e b)+
  have "map_option t_usageCount
          (find_template (run (\<lambda>_. []) demo_state demo_actions) (js ''t1''))
        = Some (t_usageCount (demo_template (js ''t1'') 3)
                + length (filter (composes_from (js ''t1'')) demo_actions))"
    by (rule usage_counts_compositions [THEN conjunct2, THEN conjunct2, THEN conjunct2,
          THEN mp, OF h])
  then have r: "map_option t_usageCount
          (find_template (run (\<lambda>_. []) demo_state demo_actions) (js ''t1'')) = Some 5"
    by (simp only: n u) simp
  show ?thesis by (intro conjI) (rule t e n b r)+
qed

text \<open>
  The claim as stated, for every workspace state, fails where the number no longer
  counts: at the usage count \<open>2 ^ 53\<close> composing a post leaves the count as it is.
\<close>

theorem usage_count_saturates_counterexample:
  "find_template
     \<lparr> templates = [demo_template (js ''t1'') 9007199254740992], posts = [], activity = [] \<rparr>
     (js ''t1'') = Some (demo_template (js ''t1'') 9007199254740992)
   \<and> p_templateId (demo_post (js ''p1'') Pending None) = js ''t1''
   \<and> map t_usageCount (templates (addPost
        \<lparr> templates = [demo_template (js ''t1'') 9007199254740992], posts = [],
          activity = [] \<rparr>
        (demo_post (js ''p1'') Pending None) (js ''e1'') (js ''n1'')))
       = [9007199254740992]
   \<and> (9007199254740992 :: nat) = 2 ^ 53
   \<and> (9007199254740992 :: nat) \<noteq> 9007199254740992 + 1"
  by (simp add: find_template_def addPost_def demo_template_def demo_post_def
      number_add_one_def)

section \<open>Saving a template\<close>

lemma find_Some_list_ex: "find P xs = Some x \<Longrightarrow> list_ex P xs"
  by (auto simp: list_ex_iff dest: find_Some_holds)

lemma demo_handleSubmit:
  "handleSubmit (demo_form (js ''t1'')) (templates demo_state) (js ''2024-03-01T00:00:00.000Z'') (js ''new'')
   = Some (demo_payload (js ''t1'') (js ''2023-12-01T00:00:00.000Z'') 3)"
  by (simp add: handleSubmit_def demo_form_def demo_payload_def demo_state_def demo_template_def
      js_def trim_def isWhiteSpace_def truthy_def COMMA_def)

lemma map_replace_same:
  "map f (map (\<lambda>item. if f item = f t then t else item) xs) = map f xs"
proof -
  have e: "f (if f item = f t then t else item) = f item" for item
    by (cases "f item = f t") simp_all
  show ?thesis
    unfolding map_map o_def e by (rule refl)
qed

lemma template_ids_ok_ids:
  assumes "map t_id (templates s') = map t_id (templates s)"
  shows "template_ids_ok s' = template_ids_ok s"
proof -
  have "list_all (\<lambda>t. truthy (t_id t)) xs = list_all truthy (map t_id xs)" for xs :: "Template list"
    by (simp add: list_all_iff)
  then show ?thesis by (simp add: template_ids_ok_def assms)
qed

lemma template_ids_ok_step:
  assumes "template_ids_ok s"
    and "\<And>template eid. a = SaveTemplate template eid \<Longrightarrow> truthy (t_id template)"
  shows "template_ids_ok (step fmt s a)"
proof (cases a)
  case (SaveTemplate template eid)
  show ?thesis
  proof (cases "list_ex (\<lambda>item. t_id item = t_id template) (templates s)")
    case True
    then have "templates (upsertTemplate s template eid)
               = map (\<lambda>item. if t_id item = t_id template then template else item)
                   (templates s)"
      by (simp add: upsertTemplate_def Let_def)
    then have "map t_id (templates (upsertTemplate s template eid)) = map t_id (templates s)"
      by (simp add: map_replace_same)
    then have "template_ids_ok (upsertTemplate s template eid) = template_ids_ok s"
      by (rule template_ids_ok_ids)
    then show ?thesis
      using assms(1) SaveTemplate by simp
  next
    case False
    then have "templates (upsertTemplate s template eid) = template # templates s"
      by (simp add: upsertTemplate_def Let_def)
    moreover have "t_id template \<notin> set (map t_id (templates s))"
    proof
      assume "t_id template \<in> set (map t_id (templates s))"
      then obtain x where x: "x \<in> set (templates s)" and e: "t_id template = t_id x"
        unfolding set_map by (rule imageE)
      then have "list_ex (\<lambda>item. t_id item = t_id template) (templates s)"
        unfolding list_ex_iff by (intro bexI [of _ x]) simp_all
      with False show False by (rule notE)
    qed
    moreover have "truthy (t_id template)"
      by (rule assms(2) [OF SaveTemplate])
    ultimately show ?thesis
      using assms(1) SaveTemplate by (simp add: template_ids_ok_def)
  qed
next
  case (DeleteTemplate i eid now)
  with assms(1) show ?thesis
    by (auto simp: template_ids_ok_def removeTemplate_def distinct_map_filter list_all_iff)
next
  case (Compose post eid now)
  have "map t_id (templates (addPost s post eid now)) = map t_id (templates s)"
    by (simp add: addPost_def o_def if_distrib cong: if_cong)
  then have "template_ids_ok (addPost s post eid now) = template_ids_ok s"
    by (rule template_ids_ok_ids)
  then show ?thesis using assms(1) Compose by simp
qed (use assms(1) in \<open>simp_all add: template_ids_ok_def\<close>)

lemma template_ids_ok_run:
  assumes "template_ids_ok s"
    and "\<And>a template eid. a \<in> set acts \<Longrightarrow> a = SaveTemplate template eid \<Longrightarrow>
           truthy (t_id template)"
  shows "template_ids_ok (run fmt s acts)"
  using assms
proof (induction acts arbitrary: s)
  case Nil
  then show ?case by simp
next
  case (Cons a acts)
  have "template_ids_ok (step fmt s a)"
    using Cons.prems(1)
  proof (rule template_ids_ok_step)
    fix template eid assume "a = SaveTemplate template eid"
    then show "truthy (t_id template)"
      using Cons.prems(2) [of a template eid] by simp
  qed
  then have "template_ids_ok (run fmt (step fmt s a) acts)"
  proof (rule Cons.IH)
    fix b template eid assume "b \<in> set acts" and "b = SaveTemplate template eid"
    then show "truthy (t_id template)"
      using Cons.prems(2) [of b template eid] by simp
  qed
  then show ?case by simp
qed

text \<open>
  Claim C7. In a state of the page (distinct, non-empty template identifiers, which
  every run keeps so when the identifiers of new templates are not empty), saving the
  form of an existing template hands
  \<open>upsertTemplate\<close> that template with only the name, the description, the platforms,
  the content, the tags and \<open>updatedAt\<close> replaced: the identifier, \<open>createdAt\<close> and the
  usage count are those of the existing template, which is the only one with that
  identifier. \<open>upsertTemplate\<close> puts it in the place of the existing one, leaves every
  other template as it is and leaves the posts alone.
\<close>

theorem save_existing_template:
  assumes "template_ids_ok s" and "f_id form = Some i" and "find_template s i = Some t0"
    and "handleSubmit form (templates s) timestamp newId = Some payload"
  shows "payload = t0\<lparr> t_name := trim (f_name form),
                       t_description := (if truthy (trim (f_description form))
                                          then trim (f_description form)
                                          else js ''Untitled template''),
                       t_platforms := f_platforms form,
                       t_content := trim (f_content form),
                       t_tags := filter truthy (map trim (split_comma (f_tags form))),
                       t_updatedAt := timestamp \<rparr>
     \<and> t_id payload = i \<and> t_createdAt payload = t_createdAt t0
     \<and> t_usageCount payload = t_usageCount t0
     \<and> templates (upsertTemplate s payload eid)
         = map (\<lambda>item. if item = t0 then payload else item) (templates s)
     \<and> find_template (upsertTemplate s payload eid) i = Some payload
     \<and> posts (upsertTemplate s payload eid) = posts s
     \<and> template_ids_ok (upsertTemplate s payload eid)"
proof -
  from assms(3) have t0: "find (\<lambda>tpl. t_id tpl = i) (templates s) = Some t0"
    by (simp add: find_template_def)
  then have id0: "t_id t0 = i" and in0: "t0 \<in> set (templates s)"
    by (auto dest: find_Some_holds)
  from assms(1) in0 id0 have "truthy i"
    by (auto simp: template_ids_ok_def list_all_iff)
  with assms(2) have tr: "truthy_opt (f_id form)" by simp
  from assms(4) assms(2) tr t0 have p: "payload = t0\<lparr> t_name := trim (f_name form),
                       t_description := (if truthy (trim (f_description form))
                                          then trim (f_description form)
                                          else js ''Untitled template''),
                       t_platforms := f_platforms form,
                       t_content := trim (f_content form),
                       t_tags := filter truthy (map trim (split_comma (f_tags form))),
                       t_updatedAt := timestamp \<rparr>"
    using id0 by (cases t0) (auto simp: handleSubmit_def split: if_splits)
  then have pid: "t_id payload = i" using id0 by simp
  have ex: "list_ex (\<lambda>item. t_id item = t_id payload) (templates s)"
    using t0 pid by (auto dest: find_Some_list_ex)
  have d: "distinct (map t_id (templates s))"
    using assms(1) by (simp add: template_ids_ok_def)
  have only: "item = t0" if "item \<in> set (templates s)" and "t_id item = i" for item
    using that(2) id0 by (intro distinct_map_unique [OF d that(1) in0]) simp
  have tpls_id: "templates (upsertTemplate s payload eid)
         = map (\<lambda>item. if t_id item = i then payload else item) (templates s)"
    using ex pid by (simp add: upsertTemplate_def Let_def)
  have "map (\<lambda>item. if t_id item = i then payload else item) (templates s)
        = map (\<lambda>item. if item = t0 then payload else item) (templates s)"
  proof (intro map_cong refl)
    fix item assume "item \<in> set (templates s)"
    with only [of item] id0
    show "(if t_id item = i then payload else item) = (if item = t0 then payload else item)"
      by (cases "item = t0") auto
  qed
  with tpls_id have tpls: "templates (upsertTemplate s payload eid)
         = map (\<lambda>item. if item = t0 then payload else item) (templates s)"
    by simp
  have "find (\<lambda>item. t_id item = i)
          (map (\<lambda>item. if t_id item = i then payload else item) (templates s))
        = map_option (\<lambda>item. if t_id item = i then payload else item)
            (find (\<lambda>item. t_id item = i) (templates s))"
    by (rule find_map_same) (simp add: pid)
  then have f: "find_template (upsertTemplate s payload eid) i = Some payload"
    using t0 id0 by (simp add: find_template_def tpls_id)
  have ps: "posts (upsertTemplate s payload eid) = posts s"
    by (simp add: upsertTemplate_def Let_def)
  have "template_ids_ok (step (\<lambda>_. []) s (SaveTemplate payload eid))"
    using assms(1) by (rule template_ids_ok_step) (simp add: pid \<open>truthy i\<close>)
  then have ok: "template_ids_ok (upsertTemplate s payload eid)" by simp
  have cr: "t_createdAt payload = t_createdAt t0" and us: "t_usageCount payload = t_usageCount t0"
    by (simp_all add: p)
  show ?thesis
    by (intro conjI) (rule p pid cr us tpls f ps ok)+
qed

theorem save_existing_template_witness:
  "template_ids_ok demo_state
   \<and> f_id (demo_form (js ''t1'')) = Some (js ''t1'')
   \<and> find_template demo_state (js ''t1'') = Some (demo_template (js ''t1'') 3)
   \<and> handleSubmit (demo_form (js ''t1'')) (templates demo_state)
        (js ''2024-03-01T00:00:00.000Z'') (js ''new'')
       = Some (demo_payload (js ''t1'') (js ''2023-12-01T00:00:00.000Z'') 3)
   \<and> templates (upsertTemplate demo_state
          (demo_payload (js ''t1'') (js ''2023-12-01T00:00:00.000Z'') 3) (js ''e1''))
       = [demo_template (js ''t2'') 5,
          demo_payload (js ''t1'') (js ''2023-12-01T00:00:00.000Z'') 3]"
proof -
  have k: "template_ids_ok demo_state"
    by (simp add: template_ids_ok_def demo_state_def demo_template_def js_def truthy_def)
  have a: "f_id (demo_form (js ''t1'')) = Some (js ''t1'')" by (simp add: demo_form_def)
  have c: "find_template demo_state (js ''t1'') = Some (demo_template (js ''t1'') 3)"
    by (simp add: find_template_def demo_state_def demo_template_def js_def)
  have m: "map (\<lambda>item. if item = demo_template (js ''t1'') 3
                       then demo_payload (js ''t1'') (js ''2023-12-01T00:00:00.000Z'') 3 else item)
             (templates demo_state)
           = [demo_template (js ''t2'') 5,
              demo_payload (js ''t1'') (js ''2023-12-01T00:00:00.000Z'') 3]"
    by (simp add: demo_state_def demo_template_def js_def)
  have "templates (upsertTemplate demo_state
          (demo_payload (js ''t1'') (js ''2023-12-01T00:00:00.000Z'') 3) (js ''e1''))
        = map (\<lambda>item. if item = demo_template (js ''t1'') 3
                       then demo_payload (js ''t1'') (js ''2023-12-01T00:00:00.000Z'') 3 else item)
             (templates demo_state)"
    using save_existing_template [OF k a c demo_handleSubmit, of "js ''e1''"] by blast
  then have r: "templates (upsertTemplate demo_state
          (demo_payload (js ''t1'') (js ''2023-12-01T00:00:00.000Z'') 3) (js ''e1''))
        = [demo_template (js ''t2'') 5,
           demo_payload (js ''t1'') (js ''2023-12-01T00:00:00.000Z'') 3]"
    by (simp only: m)
  show ?thesis
    by (intro conjI) (rule k a c demo_handleSubmit r)+
qed

section \<open>The status handlers\<close>

lemma posts_setPostStatus_Approved:
  "posts (setPostStatus prev i Approved ts)
   = map (\<lambda>item. if p_id item = i then item\<lparr> p_status := Approved, p_approvedAt := Some ts \<rparr>
                   else item) (posts prev)"
  by (simp add: setPostStatus_def) 

lemma posts_setPostStatus_Published:
  "posts (setPostStatus prev i Published ts)
   = map (\<lambda>item. if p_id item = i then item\<lparr> p_status := Published, p_publishedAt := Some ts \<rparr>
                   else item) (posts prev)"
  by (simp add: setPostStatus_def)

lemma posts_setPostStatus_Scheduled:
  "posts (setPostStatus prev i Scheduled ts)
   = map (\<lambda>item. if p_id item = i then item\<lparr> p_status := Scheduled \<rparr> else item) (posts prev)"
  by (simp add: setPostStatus_def)

lemma posts_handleApprove:
  "posts (handleApprove state prev i ts e)
   = map (\<lambda>item. if p_id item = i then item\<lparr> p_status := Approved, p_approvedAt := Some ts \<rparr>
                   else item) (posts prev)"
  by (simp add: handleApprove_def posts_setPostStatus_Approved split: option.split)

lemma posts_handlePublish:
  "posts (handlePublish state prev i ts e)
   = map (\<lambda>item. if p_id item = i then item\<lparr> p_status := Published, p_publishedAt := Some ts \<rparr>
                   else item) (posts prev)"
  by (simp add: handlePublish_def posts_setPostStatus_Published split: option.split)

lemma posts_handleSchedule:
  "posts (handleSchedule fmt state prev i ts e)
   = map (\<lambda>item. if p_id item = i then item\<lparr> p_status := Scheduled \<rparr> else item) (posts prev)"
  by (simp add: handleSchedule_def posts_setPostStatus_Scheduled split: option.split)

lemma setPostStatus_no_post:
  assumes "find_post s ident = None"
  shows "setPostStatus s ident status timestamp = s"
proof -
  from assms have "\<And>post. post \<in> set (posts s) \<Longrightarrow> p_id post \<noteq> ident"
    by (auto simp: find_post_def find_None_iff)
  then have "map (\<lambda>post.
                           if p_id post \<noteq> ident then post
                           else if status = Approved
                             then post\<lparr> p_status := status, p_approvedAt := Some timestamp \<rparr>
                           else if status = Published
                             then post\<lparr> p_status := status, p_publishedAt := Some timestamp \<rparr>
                           else if status = Scheduled
                             then post\<lparr> p_status := status \<rparr>
                           else post\<lparr> p_status := status \<rparr>) (posts s) = posts s"
    by (intro map_idI) simp
  then show ?thesis by (simp add: setPostStatus_def)
qed

lemma find_post_update:
  assumes "posts s' = map (\<lambda>item. if p_id item = i then g item else item) (posts s)"
    and "\<And>item. p_id (g item) = p_id item"
  shows "find_post s' ident
         = map_option (\<lambda>item. if p_id item = i then g item else item) (find_post s ident)"
proof -
  have "find (\<lambda>item. p_id item = ident) (map (\<lambda>item. if p_id item = i then g item else item) (posts s))
        = map_option (\<lambda>item. if p_id item = i then g item else item)
            (find (\<lambda>item. p_id item = ident) (posts s))"
    by (rule find_map_same) (simp add: assms(2))
  then show ?thesis by (simp add: find_post_def assms(1))
qed

text \<open>
  Claim C1, as amended. A transition requested for an identifier that no post has is a
  no-op: the three handlers return the state as it was, with no activity entry. For a
  post that exists the handlers do not look at its status: whatever it is, they set
  the requested status and put an activity entry in front of the journal. The
  conditions on the status are those of the buttons of the approval queue
  (\<open>offered\<close>), not of the handlers.
\<close>

theorem transition_guards:
  "(find_post s ident = None \<longrightarrow>
      handleApprove s s ident timestamp eid = s
      \<and> handleSchedule fmt s s ident timestamp eid = s
      \<and> handlePublish s s ident timestamp eid = s)
   \<and> (find_post s ident = Some post \<longrightarrow>
      find_post (handleApprove s s ident timestamp eid) ident
        = Some (post\<lparr> p_status := Approved, p_approvedAt := Some timestamp \<rparr>)
      \<and> find_post (handleSchedule fmt s s ident timestamp eid) ident
        = Some (post\<lparr> p_status := Scheduled \<rparr>)
      \<and> find_post (handlePublish s s ident timestamp eid) ident
        = Some (post\<lparr> p_status := Published, p_publishedAt := Some timestamp \<rparr>)
      \<and> hd (activity (handleApprove s s ident timestamp eid))
        = \<lparr> a_id = eid, a_timestamp = timestamp,
            a_summary = js ''Approved: '' @ p_templateName post,
            a_detail = Some (js ''Ready for ''
                         @ join (js '', '') (map platform_str (p_platforms post))),
            a_category = PostCategory \<rparr>
      \<and> a_id (hd (activity (handleSchedule fmt s s ident timestamp eid))) = eid
      \<and> hd (activity (handlePublish s s ident timestamp eid))
        = \<lparr> a_id = eid, a_timestamp = timestamp,
            a_summary = js ''Published: '' @ p_templateName post,
            a_detail = Some (js ''Shipped to ''
                         @ join (js '', '') (map platform_str (p_platforms post))),
            a_category = PostCategory \<rparr>)"
proof (intro conjI impI)
  assume n: "find_post s ident = None"
  then have f: "find (\<lambda>item. p_id item = ident) (posts s) = None" by (simp add: find_post_def)
  show "handleApprove s s ident timestamp eid = s"
    by (simp add: handleApprove_def f setPostStatus_no_post [OF n])
  show "handleSchedule fmt s s ident timestamp eid = s"
    by (simp add: handleSchedule_def f setPostStatus_no_post [OF n])
  show "handlePublish s s ident timestamp eid = s"
    by (simp add: handlePublish_def f setPostStatus_no_post [OF n])
next
  assume p: "find_post s ident = Some post"
  then have f: "find (\<lambda>item. p_id item = ident) (posts s) = Some post" by (simp add: find_post_def)
  then have i: "p_id post = ident" by (auto dest: find_Some_holds)
  show "find_post (handleApprove s s ident timestamp eid) ident
        = Some (post\<lparr> p_status := Approved, p_approvedAt := Some timestamp \<rparr>)"
  proof -
    have "find_post (handleApprove s s ident timestamp eid) ident
          = map_option (\<lambda>item. if p_id item = ident then item\<lparr> p_status := Approved, p_approvedAt := Some timestamp \<rparr> else item) (find_post s ident)"
      by (rule find_post_update [OF posts_handleApprove]) simp
    then show ?thesis using p i by simp
  qed
  show "find_post (handleSchedule fmt s s ident timestamp eid) ident
        = Some (post\<lparr> p_status := Scheduled \<rparr>)"
  proof -
    have "find_post (handleSchedule fmt s s ident timestamp eid) ident
          = map_option (\<lambda>item. if p_id item = ident then item\<lparr> p_status := Scheduled \<rparr> else item) (find_post s ident)"
      by (rule find_post_update [OF posts_handleSchedule]) simp
    then show ?thesis using p i by simp
  qed
  show "find_post (handlePublish s s ident timestamp eid) ident
        = Some (post\<lparr> p_status := Published, p_publishedAt := Some timestamp \<rparr>)"
  proof -
    have "find_post (handlePublish s s ident timestamp eid) ident
          = map_option (\<lambda>item. if p_id item = ident then item\<lparr> p_status := Published, p_publishedAt := Some timestamp \<rparr> else item) (find_post s ident)"
      by (rule find_post_update [OF posts_handlePublish]) simp
    then show ?thesis using p i by simp
  qed
  show "hd (activity (handleApprove s s ident timestamp eid))
        = \<lparr> a_id = eid, a_timestamp = timestamp,
            a_summary = js ''Approved: '' @ p_templateName post,
            a_detail = Some (js ''Ready for ''
                         @ join (js '', '') (map platform_str (p_platforms post))),
            a_category = PostCategory \<rparr>"
    by (simp add: handleApprove_def f appendActivity_def)
  show "a_id (hd (activity (handleSchedule fmt s s ident timestamp eid))) = eid"
    by (simp add: handleSchedule_def f appendActivity_def)
  show "hd (activity (handlePublish s s ident timestamp eid))
        = \<lparr> a_id = eid, a_timestamp = timestamp,
            a_summary = js ''Published: '' @ p_templateName post,
            a_detail = Some (js ''Shipped to ''
                         @ join (js '', '') (map platform_str (p_platforms post))),
            a_category = PostCategory \<rparr>"
    by (simp add: handlePublish_def f appendActivity_def)
qed


theorem transition_guards_witness:
  "find_post demo_published (js ''p2'') = None
   \<and> handleApprove demo_published demo_published (js ''p2'') (js ''n1'') (js ''e1'')
       = demo_published
   \<and> find_post demo_approved (js ''p1'') = Some (demo_post (js ''p1'') Approved None)
   \<and> find_post (handlePublish demo_approved demo_approved (js ''p1'') (js ''n1'') (js ''e1''))
        (js ''p1'')
       = Some ((demo_post (js ''p1'') Approved None)
                 \<lparr> p_status := Published, p_publishedAt := Some (js ''n1'') \<rparr>)"
proof -
  have a: "find_post demo_published (js ''p2'') = None"
    by (simp add: find_post_def demo_published_def demo_post_def js_def)
  have b: "find_post demo_approved (js ''p1'') = Some (demo_post (js ''p1'') Approved None)"
    by (simp add: find_post_def demo_approved_def demo_post_def js_def)
  from a transition_guards [of demo_published "js ''p2''" "js ''n1''" "js ''e1''"]
  have c: "handleApprove demo_published demo_published (js ''p2'') (js ''n1'') (js ''e1'')
           = demo_published"
    by blast
  from b transition_guards [of demo_approved "js ''p1''" "js ''n1''" "js ''e1''" _
      "demo_post (js ''p1'') Approved None"]
  have d: "find_post (handlePublish demo_approved demo_approved (js ''p1'') (js ''n1'') (js ''e1''))
        (js ''p1'')
       = Some ((demo_post (js ''p1'') Approved None)
                 \<lparr> p_status := Published, p_publishedAt := Some (js ''n1'') \<rparr>)"
    by blast
  show ?thesis by (intro conjI) (rule a b c d)+
qed

text \<open>
  The claim as stated fails: approving a published post, which the status does not
  permit, changes the state (the post is approved again) and appends an entry.
\<close>

theorem approve_published_counterexample:
  "find_post demo_published (js ''p1'') = Some (demo_post (js ''p1'') Published None)
   \<and> p_status (demo_post (js ''p1'') Published None) \<noteq> Pending
   \<and> handleApprove demo_published demo_published (js ''p1'') (js ''n1'') (js ''e1'')
       \<noteq> demo_published
   \<and> map p_status
        (posts (handleApprove demo_published demo_published (js ''p1'') (js ''n1'') (js ''e1'')))
       = [Approved]
   \<and> length (activity
        (handleApprove demo_published demo_published (js ''p1'') (js ''n1'') (js ''e1''))) = 2"
proof -
  have p: "map p_status
        (posts (handleApprove demo_published demo_published (js ''p1'') (js ''n1'') (js ''e1'')))
       = [Approved]"
    by (simp add: posts_handleApprove demo_published_def demo_post_def)
  have "map p_status (posts demo_published) = [Published]"
    by (simp add: demo_published_def demo_post_def)
  with p have "handleApprove demo_published demo_published (js ''p1'') (js ''n1'') (js ''e1'')
       \<noteq> demo_published"
    by auto
  moreover have "length (activity
        (handleApprove demo_published demo_published (js ''p1'') (js ''n1'') (js ''e1''))) = 2"
    by (simp add: handleApprove_def demo_published_def demo_post_def appendActivity_def js_def)
  moreover have "find_post demo_published (js ''p1'') = Some (demo_post (js ''p1'') Published None)"
    by (simp add: find_post_def demo_published_def demo_post_def)
  moreover have "p_status (demo_post (js ''p1'') Published None) \<noteq> Pending"
    by (simp add: demo_post_def)
  ultimately show ?thesis using p by blast
qed

section \<open>The workflow moves forward\<close>

lemma offered_all:
  assumes "distinct (map p_id xs)" and "list_ex (\<lambda>post. p_id post = i \<and> Q post) xs"
    and "item \<in> set xs" and "p_id item = i"
  shows "Q item"
proof -
  from assms(2) obtain post where "post \<in> set xs" "p_id post = i" "Q post"
    by (auto simp: list_ex_iff)
  with assms(1,3,4) show ?thesis
    using distinct_map_unique [of p_id xs item post] by auto
qed

lemma forward_same_posts: "posts s' = posts s \<Longrightarrow> forward ident s s'"
  by (simp add: forward_def find_post_def split: option.split)

lemma forward_update:
  assumes "posts s' = map (\<lambda>item. if p_id item = i then g item else item) (posts s)"
    and "\<And>item. p_id (g item) = p_id item"
    and "\<And>item. item \<in> set (posts s) \<Longrightarrow> p_id item = i \<Longrightarrow>
           rank (p_status item) \<le> rank (p_status (g item))
           \<and> (p_status (g item) \<noteq> Scheduled \<or> p_status item = Scheduled
               \<or> truthy_opt (p_scheduledAt item))"
  shows "forward ident s s'"
proof (cases "find_post s ident")
  case None
  then show ?thesis by (simp add: forward_def)
next
  case (Some p)
  then have "p \<in> set (posts s)"
    by (auto simp: find_post_def dest: find_Some_holds)
  with assms(3) [of p] Some find_post_update [OF assms(1,2), of ident] show ?thesis
    by (auto simp: forward_def)
qed

lemma distinct_update:
  assumes "posts s' = map (\<lambda>item. if p_id item = i then g item else item) (posts s)"
    and "\<And>item. p_id (g item) = p_id item"
  shows "map p_id (posts s') = map p_id (posts s)"
  by (simp add: assms o_def if_distrib cong: if_cong)

lemma step_forward:
  assumes "distinct (map p_id (posts s))" and "offered s a"
  shows "forward ident s (step fmt s a) \<and> distinct (map p_id (posts (step fmt s a)))"
proof (cases a)
  case (SaveTemplate template eid)
  then have "posts (step fmt s a) = posts s" by (simp add: upsertTemplate_def Let_def)
  with assms(1) show ?thesis by (simp add: forward_same_posts)
next
  case (DeleteTemplate i eid now)
  then have "posts (step fmt s a) = posts s" by (simp add: removeTemplate_def)
  with assms(1) show ?thesis by (simp add: forward_same_posts)
next
  case (Compose post eid now)
  with assms(2) have fresh: "\<And>item. item \<in> set (posts s) \<Longrightarrow> p_id item \<noteq> p_id post"
    by (auto simp: list_ex_iff)
  have ps: "posts (step fmt s a) = post # posts s"
    using Compose by (simp add: addPost_def)
  have "forward ident s (step fmt s a)"
  proof (cases "p_id post = ident")
    case True
    with fresh have "find_post s ident = None"
      by (auto simp: find_post_def find_None_iff)
    then show ?thesis by (simp add: forward_def)
  next
    case False
    then have "find_post (step fmt s a) ident = find_post s ident"
      by (simp add: find_post_def ps)
    then show ?thesis by (simp add: forward_def split: option.split)
  qed
  moreover have "p_id post \<notin> set (map p_id (posts s))"
  proof
    assume "p_id post \<in> set (map p_id (posts s))"
    then obtain x where x: "x \<in> set (posts s)" and e: "p_id post = p_id x"
      unfolding set_map by (rule imageE)
    from fresh [OF x] e show False by simp
  qed
  ultimately show ?thesis using assms(1) ps by simp
next
  case (Approve i timestamp eid)
  let ?g = "\<lambda>item. item\<lparr> p_status := Approved, p_approvedAt := Some timestamp \<rparr>"
  have ps: "posts (step fmt s a) = map (\<lambda>item. if p_id item = i then ?g item else item) (posts s)"
    using Approve by (simp add: posts_handleApprove)
  have "forward ident s (step fmt s a)"
  proof (rule forward_update [OF ps])
    fix item assume "item \<in> set (posts s)" "p_id item = i"
    with assms Approve have "p_status item = Pending"
      using offered_all [of "posts s" i "\<lambda>post. p_status post = Pending" item] by simp
    then show "rank (p_status item) \<le> rank (p_status (?g item))
           \<and> (p_status (?g item) \<noteq> Scheduled \<or> p_status item = Scheduled
               \<or> truthy_opt (p_scheduledAt item))"
      by simp
  qed simp
  moreover have "map p_id (posts (step fmt s a)) = map p_id (posts s)"
    by (rule distinct_update [OF ps]) simp
  ultimately show ?thesis using assms(1) by simp
next
  case (Schedule i timestamp eid)
  let ?g = "\<lambda>item. item\<lparr> p_status := Scheduled \<rparr>"
  have ps: "posts (step fmt s a) = map (\<lambda>item. if p_id item = i then ?g item else item) (posts s)"
    using Schedule by (simp add: posts_handleSchedule)
  have "forward ident s (step fmt s a)"
  proof (rule forward_update [OF ps])
    fix item assume "item \<in> set (posts s)" "p_id item = i"
    with assms Schedule have "p_status item = Approved \<and> truthy_opt (p_scheduledAt item)"
      using offered_all [of "posts s" i
          "\<lambda>post. p_status post = Approved \<and> truthy_opt (p_scheduledAt post)" item]
      by simp
    then show "rank (p_status item) \<le> rank (p_status (?g item))
           \<and> (p_status (?g item) \<noteq> Scheduled \<or> p_status item = Scheduled
               \<or> truthy_opt (p_scheduledAt item))"
      by simp
  qed simp
  moreover have "map p_id (posts (step fmt s a)) = map p_id (posts s)"
    by (rule distinct_update [OF ps]) simp
  ultimately show ?thesis using assms(1) by simp
next
  case (Publish i timestamp eid)
  let ?g = "\<lambda>item. item\<lparr> p_status := Published, p_publishedAt := Some timestamp \<rparr>"
  have ps: "posts (step fmt s a) = map (\<lambda>item. if p_id item = i then ?g item else item) (posts s)"
    using Publish by (simp add: posts_handlePublish)
  have "forward ident s (step fmt s a)"
  proof (rule forward_update [OF ps])
    fix item assume "item \<in> set (posts s)" "p_id item = i"
    show "rank (p_status item) \<le> rank (p_status (?g item))
           \<and> (p_status (?g item) \<noteq> Scheduled \<or> p_status item = Scheduled
               \<or> truthy_opt (p_scheduledAt item))"
      by (cases "p_status item") simp_all
  qed simp
  moreover have "map p_id (posts (step fmt s a)) = map p_id (posts s)"
    by (rule distinct_update [OF ps]) simp
  ultimately show ?thesis using assms(1) by simp
next
  case (Remove i eid now)
  have ps: "posts (step fmt s a) = filter (\<lambda>post. p_id post \<noteq> i) (posts s)"
    using Remove by (simp add: deletePost_def)
  have "forward ident s (step fmt s a)"
  proof (cases "i = ident")
    case True
    then have "find_post (step fmt s a) ident = None"
      by (auto simp: find_post_def ps find_None_iff)
    then show ?thesis by (simp add: forward_def split: option.split)
  next
    case False
    then have "find_post (step fmt s a) ident = find_post s ident"
      using find_filter_keep [of "posts s" "\<lambda>item. p_id item = ident" "\<lambda>post. p_id post \<noteq> i"]
      by (auto simp: find_post_def ps)
    then show ?thesis by (simp add: forward_def split: option.split)
  qed
  with assms(1) ps show ?thesis by (simp add: distinct_map_filter)
qed

lemma trace_Cons: "\<exists>rest. trace fmt s acts = s # rest"
  by (cases acts) simp_all

text \<open>
  Claim C2, as amended. From a state whose posts have distinct identifiers, over any
  sequence of actions each of which the page offers in the state where it is taken,
  every step in the life of every post is forward: the status does not decrease in the
  order pending, approved, scheduled, published, and a post becomes scheduled only
  when its \<open>scheduledAt\<close> was set before.
\<close>

theorem status_moves_forward:
  assumes "distinct (map p_id (posts s))" and "offered_run fmt s acts"
  shows "successively (forward ident) (trace fmt s acts)"
  using assms
proof (induction acts arbitrary: s)
  case Nil
  then show ?case by simp
next
  case (Cons a acts)
  from Cons.prems have o: "offered s a" and r: "offered_run fmt (step fmt s a) acts"
    by simp_all
  from step_forward [OF Cons.prems(1) o]
  have f: "forward ident s (step fmt s a)" and d: "distinct (map p_id (posts (step fmt s a)))"
    by simp_all
  obtain rest where t: "trace fmt (step fmt s a) acts = step fmt s a # rest"
    using trace_Cons by blast
  from Cons.IH [OF d r] f t show ?case by simp
qed


lemma demo_offered_run: "offered_run (\<lambda>_. []) demo_state demo_actions"
  by (simp add: demo_state_def demo_actions_def demo_post_def demo_template_def addPost_def
      upsertTemplate_def posts_handleApprove posts_handleSchedule posts_handlePublish
      deletePost_def js_def truthy_def)

lemma demo_run_statuses:
  "map (\<lambda>s. map_option p_status (find_post s (js ''p1''))) (trace (\<lambda>_. []) demo_state demo_actions)
   = [None, Some Pending, Some Pending, Some Approved, Some Approved, Some Scheduled,
      Some Published, Some Published]"
  by (simp add: demo_state_def demo_actions_def demo_post_def demo_template_def addPost_def
      upsertTemplate_def posts_handleApprove posts_handleSchedule posts_handlePublish
      deletePost_def js_def truthy_def find_post_def)

theorem status_moves_forward_witness:
  "distinct (map p_id (posts demo_state))
   \<and> offered_run (\<lambda>_. []) demo_state demo_actions
   \<and> successively (forward (js ''p1'')) (trace (\<lambda>_. []) demo_state demo_actions)
   \<and> map (\<lambda>s. map_option p_status (find_post s (js ''p1'')))
         (trace (\<lambda>_. []) demo_state demo_actions)
       = [None, Some Pending, Some Pending, Some Approved, Some Approved, Some Scheduled,
          Some Published, Some Published]"
proof -
  have d: "distinct (map p_id (posts demo_state))"
    by (simp add: demo_state_def)
  from status_moves_forward [OF d demo_offered_run]
  have "successively (forward (js ''p1'')) (trace (\<lambda>_. []) demo_state demo_actions)" .
  with d demo_offered_run demo_run_statuses show ?thesis by blast
qed

text \<open>
  The claim as stated, for any sequence of operations, fails: the handlers have no
  guard, so approving a published post takes it back to approved, and scheduling an
  approved post with no \<open>scheduledAt\<close> makes it scheduled.
\<close>

theorem status_goes_back_counterexample:
  "distinct (map p_id (posts demo_published))
   \<and> \<not> successively (forward (js ''p1''))
         (trace (\<lambda>_. []) demo_published [Approve (js ''p1'') (js ''n1'') (js ''e1'')])
   \<and> map (\<lambda>s. map_option p_status (find_post s (js ''p1'')))
         (trace (\<lambda>_. []) demo_published [Approve (js ''p1'') (js ''n1'') (js ''e1'')])
       = [Some Published, Some Approved]
   \<and> distinct (map p_id (posts demo_approved))
   \<and> map_option p_scheduledAt (find_post demo_approved (js ''p1'')) = Some None
   \<and> map (\<lambda>s. map_option p_status (find_post s (js ''p1'')))
         (trace (\<lambda>_. []) demo_approved [Schedule (js ''p1'') (js ''n1'') (js ''e1'')])
       = [Some Approved, Some Scheduled]
   \<and> \<not> successively (forward (js ''p1''))
         (trace (\<lambda>_. []) demo_approved [Schedule (js ''p1'') (js ''n1'') (js ''e1'')])"
  by (simp add: demo_published_def demo_approved_def demo_post_def forward_def find_post_def
      posts_handleApprove posts_handleSchedule)

section \<open>Scanning for placeholders\<close>

lemma placeholder_at_SomeD:
  assumes "placeholder_at s = Some (cap, rest)"
  shows "s = LBRACE # cap @ RBRACE # rest \<and> cap \<noteq> [] \<and> RBRACE \<notin> set cap"
proof -
  obtain c cs where s: "s = c # cs"
    using assms by (cases s) (simp_all add: placeholder_at_def)
  let ?t = "takeWhile (\<lambda>x. x \<noteq> RBRACE) cs" and ?d = "dropWhile (\<lambda>x. x \<noteq> RBRACE) cs"
  from assms s have c: "c = LBRACE" and t: "?t \<noteq> []" and d: "?d \<noteq> []"
    and cap: "cap = ?t" and rest: "rest = tl ?d"
    by (auto simp: placeholder_at_def split: if_splits)
  from d have "hd ?d = RBRACE"
    using hd_dropWhile [of "\<lambda>x. x \<noteq> RBRACE" cs] by simp
  with d rest have "?d = RBRACE # rest"
    by (cases ?d) simp_all
  then have "cs = cap @ RBRACE # rest"
    using takeWhile_dropWhile_id [of "\<lambda>x. x \<noteq> RBRACE" cs] cap by simp
  moreover have "RBRACE \<notin> set cap"
    using cap by (auto dest: set_takeWhileD)
  ultimately show ?thesis using s c t cap by simp
qed

lemma placeholder_at_token:
  assumes "cap \<noteq> []" and "RBRACE \<notin> set cap"
  shows "placeholder_at (LBRACE # cap @ RBRACE # rest) = Some (cap, rest)"
proof -
  have "takeWhile (\<lambda>x. x \<noteq> RBRACE) (cap @ RBRACE # rest) = cap"
    using assms(2) by (induction cap) auto
  moreover have "dropWhile (\<lambda>x. x \<noteq> RBRACE) (cap @ RBRACE # rest) = RBRACE # rest"
    using assms(2) by (induction cap) auto
  ultimately show ?thesis using assms(1) by (simp add: placeholder_at_def)
qed

lemma placeholder_at_append_Some:
  assumes "placeholder_at s = Some (cap, rest)"
  shows "placeholder_at (s @ post) = Some (cap, rest @ post)"
proof -
  from placeholder_at_SomeD [OF assms]
  have "s = LBRACE # cap @ RBRACE # rest" "cap \<noteq> []" "RBRACE \<notin> set cap" by simp_all
  then show ?thesis
    using placeholder_at_token [of cap "rest @ post"] by simp
qed

lemma placeholder_at_no_close:
  "RBRACE \<notin> set s \<Longrightarrow> placeholder_at s = None"
  by (cases "placeholder_at s") (auto dest: placeholder_at_SomeD)

lemma placeholder_at_not_open:
  "c \<noteq> LBRACE \<Longrightarrow> placeholder_at (c # cs) = None"
  by (simp add: placeholder_at_def)

lemma placeholder_at_empty_capture:
  "placeholder_at (c # RBRACE # cs) = None"
  by (simp add: placeholder_at_def)

lemma brace_closed_Cons:
  assumes "brace_closed (c # cs)"
  shows "brace_closed cs"
proof -
  have "set (takeWhile (\<lambda>x. x \<noteq> RBRACE) (rev cs))
        \<subseteq> set (takeWhile (\<lambda>x. x \<noteq> RBRACE) (rev cs @ [c]))"
    by (auto simp: takeWhile_append dest: set_takeWhileD)
  with assms show ?thesis by (auto simp: brace_closed_def)
qed

lemma brace_closed_open:
  assumes "brace_closed (LBRACE # cs)"
  shows "RBRACE \<in> set cs"
proof (rule ccontr)
  assume "RBRACE \<notin> set cs"
  then have "takeWhile (\<lambda>x. x \<noteq> RBRACE) (rev cs @ [LBRACE]) = rev cs @ [LBRACE]"
    by (simp add: takeWhile_append LBRACE_def RBRACE_def)
  with assms show False by (simp add: brace_closed_def)
qed

lemma brace_closed_rest:
  assumes "brace_closed (LBRACE # cap @ RBRACE # rest)"
  shows "brace_closed rest"
proof -
  have "takeWhile (\<lambda>x. x \<noteq> RBRACE) (rev rest @ RBRACE # rev cap @ [LBRACE])
        = takeWhile (\<lambda>x. x \<noteq> RBRACE) (rev rest)"
    by (simp add: takeWhile_tail)
  with assms show ?thesis by (simp add: brace_closed_def)
qed

lemma placeholder_at_append_None:
  assumes "placeholder_at (c # cs) = None" and "brace_closed (c # cs)"
  shows "placeholder_at ((c # cs) @ post) = None"
proof (cases "c = LBRACE")
  case False
  then show ?thesis by (simp add: placeholder_at_not_open)
next
  case True
  with assms(2) have r: "RBRACE \<in> set cs" by (auto dest: brace_closed_open)
  then have "dropWhile (\<lambda>x. x \<noteq> RBRACE) cs \<noteq> []" by auto
  with assms(1) True have "takeWhile (\<lambda>x. x \<noteq> RBRACE) cs = []"
    by (auto simp: placeholder_at_def split: if_splits)
  with r obtain cs' where "cs = RBRACE # cs'"
    by (cases cs) (auto split: if_splits)
  then show ?thesis by (simp add: placeholder_at_empty_capture)
qed

lemma match_g_None: "placeholder_at (c # cs) = None \<Longrightarrow> match_g (c # cs) = match_g cs"
  by simp

lemma match_g_Some:
  "placeholder_at (c # cs) = Some (cap, rest) \<Longrightarrow>
   match_g (c # cs) = (LBRACE # cap @ [RBRACE]) # match_g rest"
  by simp

lemma replace_g_None:
  "placeholder_at (c # cs) = None \<Longrightarrow> replace_g fn (c # cs) = c # replace_g fn cs"
  by simp

lemma replace_g_Some:
  "placeholder_at (c # cs) = Some (cap, rest) \<Longrightarrow>
   replace_g fn (c # cs) = fn (LBRACE # cap @ [RBRACE]) cap @ replace_g fn rest"
  by simp

lemma match_g_append:
  "brace_closed pre \<Longrightarrow> match_g (pre @ post) = match_g pre @ match_g post"
proof (induction pre rule: match_g.induct)
  case 1
  then show ?case by simp
next
  case (2 c cs)
  show ?case
  proof (cases "placeholder_at (c # cs)")
    case None
    from placeholder_at_append_None [OF None "2.prems"]
    have "match_g ((c # cs) @ post) = match_g (cs @ post)" by simp
    moreover have "match_g (cs @ post) = match_g cs @ match_g post"
      using "2.IH"(1) [OF None] "2.prems" by (auto dest: brace_closed_Cons)
    ultimately show ?thesis using None by simp
  next
    case (Some p)
    obtain cap rest where p: "p = (cap, rest)" by (cases p)
    from Some p have s: "placeholder_at (c # cs) = Some (cap, rest)" by simp
    from placeholder_at_SomeD [OF s] "2.prems" have "brace_closed rest"
      by (auto dest: brace_closed_rest)
    then have "match_g (rest @ post) = match_g rest @ match_g post"
      using "2.IH"(2) [OF Some p [symmetric]] by simp
    moreover from placeholder_at_append_Some [OF s]
    have "match_g ((c # cs) @ post) = (LBRACE # cap @ [RBRACE]) # match_g (rest @ post)"
      by simp
    ultimately show ?thesis using s by simp
  qed
qed

lemma replace_g_append:
  "brace_closed pre \<Longrightarrow> replace_g fn (pre @ post) = replace_g fn pre @ replace_g fn post"
proof (induction fn pre rule: replace_g.induct)
  case (1 fn)
  then show ?case by simp
next
  case (2 fn c cs)
  show ?case
  proof (cases "placeholder_at (c # cs)")
    case None
    from placeholder_at_append_None [OF None "2.prems"]
    have "replace_g fn ((c # cs) @ post) = c # replace_g fn (cs @ post)" by simp
    moreover have "replace_g fn (cs @ post) = replace_g fn cs @ replace_g fn post"
      using "2.IH"(1) [OF None] "2.prems" by (auto dest: brace_closed_Cons)
    ultimately show ?thesis using None by simp
  next
    case (Some p)
    obtain cap rest where p: "p = (cap, rest)" by (cases p)
    from Some p have s: "placeholder_at (c # cs) = Some (cap, rest)" by simp
    from placeholder_at_SomeD [OF s] "2.prems" have "brace_closed rest"
      by (auto dest: brace_closed_rest)
    then have "replace_g fn (rest @ post) = replace_g fn rest @ replace_g fn post"
      using "2.IH"(2) [OF Some p [symmetric]] by simp
    moreover from placeholder_at_append_Some [OF s]
    have "replace_g fn ((c # cs) @ post)
          = fn (LBRACE # cap @ [RBRACE]) cap @ replace_g fn (rest @ post)"
      by simp
    ultimately show ?thesis using s by simp
  qed
qed

section \<open>The placeholder extractor\<close>

lemma match_g_shape:
  "m \<in> set (match_g t) \<Longrightarrow>
   sublist m t \<and> (\<exists>cap. m = LBRACE # cap @ [RBRACE] \<and> cap \<noteq> [] \<and> RBRACE \<notin> set cap)"
proof (induction t rule: match_g.induct)
  case 1
  then show ?case by simp
next
  case (2 c cs)
  show ?case
  proof (cases "placeholder_at (c # cs)")
    case None
    with 2 have "sublist m cs"
      and sh: "\<exists>cap. m = LBRACE # cap @ [RBRACE] \<and> cap \<noteq> [] \<and> RBRACE \<notin> set cap"
      by simp_all
    then have "sublist m (c # cs)" by (simp add: sublist_Cons_right)
    with sh show ?thesis by blast
  next
    case (Some p)
    obtain cap rest where p: "p = (cap, rest)" by (cases p)
    from Some p have s: "placeholder_at (c # cs) = Some (cap, rest)" by simp
    from placeholder_at_SomeD [OF s]
    have shape: "c # cs = LBRACE # cap @ RBRACE # rest" "cap \<noteq> []" "RBRACE \<notin> set cap"
      by simp_all
    from "2.prems" s have "m = LBRACE # cap @ [RBRACE] \<or> m \<in> set (match_g rest)"
      by simp
    then show ?thesis
    proof
      assume m: "m = LBRACE # cap @ [RBRACE]"
      have "c # cs = m @ rest" using shape(1) m by simp
      then have "sublist m (c # cs)" by (simp only: sublist_append_rightI)
      with m shape show ?thesis by blast
    next
      assume "m \<in> set (match_g rest)"
      with "2.IH"(2) [OF Some p [symmetric]] have ih: "sublist m rest"
        "\<exists>cap. m = LBRACE # cap @ [RBRACE] \<and> cap \<noteq> [] \<and> RBRACE \<notin> set cap"
        by simp_all
      from ih(1) obtain ps ss where "rest = ps @ m @ ss"
        by (auto simp: sublist_def)
      then have "c # cs = ((LBRACE # cap @ [RBRACE]) @ ps) @ m @ ss"
        using shape(1) by simp
      then have "sublist m (c # cs)"
        by (simp only: sublist_appendI)
      with ih(2) show ?thesis by blast
    qed
  qed
qed

lemma set_first_occurrences: "set (first_occurrences xs) = set xs"
  by (induction xs rule: first_occurrences.induct) auto

lemma distinct_first_occurrences: "distinct (first_occurrences xs)"
  by (induction xs rule: first_occurrences.induct) (auto simp: set_first_occurrences)

lemma fold_set_add:
  "fold (\<lambda>token placeholders.
          if truthy (g token) then set_add placeholders (g token) else placeholders) ms acc
   = acc @ first_occurrences (filter (\<lambda>n. truthy n \<and> n \<notin> set acc) (map g ms))"
proof (induction ms arbitrary: acc)
  case Nil
  then show ?case by simp
next
  case (Cons m ms)
  show ?case
    by (simp add: Cons.IH set_add_def conj_ac)
qed

lemma parsePlaceholders_first_occurrences:
  "parsePlaceholders t =
   first_occurrences (filter truthy (map (\<lambda>token. trim (strip_braces token)) (match_g t)))"
  by (simp add: parsePlaceholders_def Let_def fold_set_add)

lemma set_parsePlaceholders:
  "set (parsePlaceholders t)
   = {n. truthy n \<and> n \<in> (\<lambda>token. trim (strip_braces token)) ` set (match_g t)}"
  by (auto simp: parsePlaceholders_first_occurrences set_first_occurrences)

lemma trim_idem: "trim (trim s) = trim s"
proof -
  let ?d = "dropWhile isWhiteSpace s"
  let ?e = "rev (dropWhile isWhiteSpace (rev ?d))"
  have d: "?d = ?e @ rev (takeWhile isWhiteSpace (rev ?d))"
    using takeWhile_dropWhile_id [of isWhiteSpace "rev ?d"]
    by (metis rev_append rev_rev_ident)
  have "dropWhile isWhiteSpace ?e = ?e"
  proof (cases "?e = []")
    case True
    then show ?thesis by (simp only: dropWhile.simps)
  next
    case False
    then have "hd ?e = hd ?d" using d by (metis hd_append2)
    moreover have "?d \<noteq> []"
    proof
      assume "?d = []"
      then have "?e = []" by (simp only: rev.simps dropWhile.simps)
      with False show False by (rule notE)
    qed
    then have "\<not> isWhiteSpace (hd ?d)" by (rule hd_dropWhile)
    ultimately show ?thesis using False by (cases ?e) simp_all
  qed
  then show ?thesis by (simp add: trim_def)
qed

lemma strip_braces_token:
  "LBRACE \<notin> set cap \<Longrightarrow> RBRACE \<notin> set cap \<Longrightarrow> strip_braces (LBRACE # cap @ [RBRACE]) = cap"
  by (auto simp: strip_braces_def filter_id_conv LBRACE_def RBRACE_def)

lemma parsePlaceholders_complete:
  assumes "brace_closed pre" and "cap \<noteq> []" and "RBRACE \<notin> set cap" and "LBRACE \<notin> set cap"
    and "truthy (trim cap)"
  shows "trim cap \<in> set (parsePlaceholders (pre @ LBRACE # cap @ RBRACE # post))"
proof -
  have "match_g (pre @ LBRACE # cap @ RBRACE # post)
        = match_g pre @ match_g (LBRACE # cap @ RBRACE # post)"
    using assms(1) by (rule match_g_append)
  also have "match_g (LBRACE # cap @ RBRACE # post) = (LBRACE # cap @ [RBRACE]) # match_g post"
    using placeholder_at_token [OF assms(2,3), of post] by simp
  finally have "LBRACE # cap @ [RBRACE] \<in> set (match_g (pre @ LBRACE # cap @ RBRACE # post))"
    by simp
  then have "trim (strip_braces (LBRACE # cap @ [RBRACE]))
             \<in> (\<lambda>token. trim (strip_braces token)) ` set (match_g (pre @ LBRACE # cap @ RBRACE # post))"
    by (rule imageI)
  then show ?thesis
    using assms(5) by (simp add: set_parsePlaceholders strip_braces_token [OF assms(4,3)])
qed

lemmas js_eval = js_def placeholder_at_def LBRACE_def RBRACE_def strip_braces_def trim_def
  isWhiteSpace_def set_add_def truthy_def

lemma spec_captures_skip: "LBRACE \<notin> set xs \<Longrightarrow> spec_captures (xs @ ys) = spec_captures ys"
  by (induction xs) auto

lemma takeWhile_plain_capture:
  assumes "LBRACE \<notin> set cap" and "RBRACE \<notin> set cap"
  shows "takeWhile plain (cap @ RBRACE # rest) = cap"
    and "dropWhile plain (cap @ RBRACE # rest) = RBRACE # rest"
  using assms by (induction cap) (auto simp: plain_def)

lemma no_capture_at:
  assumes "placeholder_at (c # cs) = None"
  shows "\<not> (c = LBRACE \<and> takeWhile plain cs \<noteq> []
            \<and> (case dropWhile plain cs of [] \<Rightarrow> False | d # _ \<Rightarrow> d = RBRACE))"
proof
  assume h: "c = LBRACE \<and> takeWhile plain cs \<noteq> []
            \<and> (case dropWhile plain cs of [] \<Rightarrow> False | d # _ \<Rightarrow> d = RBRACE)"
  then obtain rest where d: "dropWhile plain cs = RBRACE # rest"
    by (cases "dropWhile plain cs") auto
  let ?cap = "takeWhile plain cs"
  have cs: "cs = ?cap @ RBRACE # rest"
    using takeWhile_dropWhile_id [of plain cs] d by simp
  have "RBRACE \<notin> set ?cap"
    by (auto dest: set_takeWhileD simp: plain_def)
  with h have "placeholder_at (LBRACE # ?cap @ RBRACE # rest) = Some (?cap, rest)"
    by (intro placeholder_at_token) simp_all
  with assms h cs show False by simp
qed

lemma spec_captures_match_g:
  "\<forall>m \<in> set (match_g t). LBRACE \<notin> set (tl m) \<Longrightarrow>
   spec_captures t = map strip_braces (match_g t)"
proof (induction t rule: match_g.induct)
  case 1
  then show ?case by simp
next
  case (2 c cs)
  show ?case
  proof (cases "placeholder_at (c # cs)")
    case None
    with "2.prems" "2.IH"(1) have "spec_captures cs = map strip_braces (match_g cs)"
      by simp
    with None no_capture_at [OF None] show ?thesis by simp
  next
    case (Some p)
    obtain cap rest where p: "p = (cap, rest)" by (cases p)
    from Some p have s: "placeholder_at (c # cs) = Some (cap, rest)" by simp
    from placeholder_at_SomeD [OF s]
    have shape: "c = LBRACE" "cs = cap @ RBRACE # rest" "cap \<noteq> []" "RBRACE \<notin> set cap"
      by simp_all
    have mg: "match_g (c # cs) = (LBRACE # cap @ [RBRACE]) # match_g rest"
      using s by (rule match_g_Some)
    with "2.prems" have inner: "LBRACE \<notin> set cap" by simp
    from "2.prems" mg "2.IH"(2) [OF Some p [symmetric]]
    have ih: "spec_captures rest = map strip_braces (match_g rest)" by simp
    have "spec_captures cs = spec_captures (RBRACE # rest)"
      unfolding shape(2) using inner by (rule spec_captures_skip)
    also have "\<dots> = spec_captures rest"
      by (simp add: LBRACE_def RBRACE_def)
    finally have skip: "spec_captures cs = spec_captures rest" .
    have "spec_captures (c # cs) = cap # spec_captures cs"
      using shape takeWhile_plain_capture [OF inner shape(4), of rest] by simp
    with skip ih mg show ?thesis
      by (simp add: strip_braces_token [OF inner shape(4)])
  qed
qed

lemma parsePlaceholders_spec_extract:
  assumes "\<forall>m \<in> set (match_g t). LBRACE \<notin> set (tl m)"
  shows "parsePlaceholders t = spec_extract t"
  by (simp add: parsePlaceholders_first_occurrences spec_extract_def
      spec_captures_match_g [OF assms] o_def)

text \<open>
  Claim C5, as amended. For every template in which no token has a further opening
  brace inside it, \<open>parsePlaceholders\<close> returns what the specification describes: the
  names that appear between \<^verbatim>\<open>{\<close> and \<^verbatim>\<open>}\<close>, trimmed, the empty ones ignored, each once,
  in the order of their first appearance. For every template the names returned are
  distinct, none is empty and each is trimmed. On the two examples of the
  specification the result is \<^verbatim>\<open>["a", "b"]\<close> and \<^verbatim>\<open>[]\<close>.
\<close>

theorem parsePlaceholders_extracts:
  "((\<forall>m \<in> set (match_g template). LBRACE \<notin> set (tl m)) \<longrightarrow>
      parsePlaceholders template = spec_extract template)
   \<and> distinct (parsePlaceholders template)
   \<and> [] \<notin> set (parsePlaceholders template)
   \<and> map trim (parsePlaceholders template) = parsePlaceholders template
   \<and> parsePlaceholders (js ''hi {a} and {a} and {b}'') = [js ''a'', js ''b'']
   \<and> parsePlaceholders (js ''no fields'') = []"
proof -
  have "distinct (parsePlaceholders template)"
    by (simp add: parsePlaceholders_first_occurrences distinct_first_occurrences)
  moreover have "[] \<notin> set (parsePlaceholders template)"
    by (simp add: set_parsePlaceholders truthy_def)
  moreover have "map trim (parsePlaceholders template) = parsePlaceholders template"
    by (rule map_idI) (auto simp: set_parsePlaceholders trim_idem)
  moreover have "parsePlaceholders (js ''hi {a} and {a} and {b}'') = [js ''a'', js ''b'']"
    by (simp add: parsePlaceholders_def js_eval)
  moreover have "parsePlaceholders (js ''no fields'') = []"
    by (simp add: parsePlaceholders_def js_eval)
  ultimately show ?thesis
    using parsePlaceholders_spec_extract [of template] by blast
qed

theorem parsePlaceholders_extracts_witness:
  "match_g (js ''hi { a } and {a} and {b}{}{ }'') = [js ''{ a }'', js ''{a}'', js ''{b}'', js ''{ }'']
   \<and> spec_captures (js ''hi { a } and {a} and {b}{}{ }'') = [js '' a '', js ''a'', js ''b'', js '' '']
   \<and> spec_extract (js ''hi { a } and {a} and {b}{}{ }'') = [js ''a'', js ''b'']
   \<and> parsePlaceholders (js ''hi { a } and {a} and {b}{}{ }'') = [js ''a'', js ''b'']"
proof -
  let ?t = "js ''hi { a } and {a} and {b}{}{ }''"
  have m: "match_g ?t = [js ''{ a }'', js ''{a}'', js ''{b}'', js ''{ }'']"
    by (simp add: js_eval)
  have h: "\<forall>m \<in> set (match_g ?t). LBRACE \<notin> set (tl m)"
    by (simp add: m) (simp add: js_def LBRACE_def)
  have c: "spec_captures ?t = [js '' a '', js ''a'', js ''b'', js '' '']"
    by (simp add: js_def plain_def LBRACE_def RBRACE_def)
  then have e: "spec_extract ?t = [js ''a'', js ''b'']"
    by (simp add: spec_extract_def) (simp add: js_eval)
  from parsePlaceholders_extracts [of ?t] h
  have "parsePlaceholders ?t = spec_extract ?t" by blast
  then have r: "parsePlaceholders ?t = [js ''a'', js ''b'']"
    by (simp only: e)
  show ?thesis by (intro conjI) (rule m c e r)+
qed

text \<open>
  The claim as stated, for every template, fails on nested braces. In \<^verbatim>\<open>{a{b}\<close> the
  only name between braces is \<^verbatim>\<open>b\<close>; the pattern takes the whole text for one token,
  the braces are removed from it, and the name returned is \<^verbatim>\<open>ab\<close>, which stands
  between no braces of the template.
\<close>

theorem parsePlaceholders_nested_counterexample:
  "parsePlaceholders (js ''{a{b}'') = [js ''ab'']
   \<and> spec_extract (js ''{a{b}'') = [js ''b'']
   \<and> parsePlaceholders (js ''{a{b}'') \<noteq> spec_extract (js ''{a{b}'')
   \<and> \<not> sublist (js ''{ab}'') (js ''{a{b}'')"
proof -
  have a: "parsePlaceholders (js ''{a{b}'') = [js ''ab'']"
    by (simp add: parsePlaceholders_def js_eval)
  have "spec_captures (js ''{a{b}'') = [js ''b'']"
    by (simp add: js_def plain_def LBRACE_def RBRACE_def)
  then have b: "spec_extract (js ''{a{b}'') = [js ''b'']"
    by (simp add: spec_extract_def) (simp add: js_eval)
  have c: "parsePlaceholders (js ''{a{b}'') \<noteq> spec_extract (js ''{a{b}'')"
    by (simp only: a b) (simp add: js_def)
  have d: "\<not> sublist (js ''{ab}'') (js ''{a{b}'')"
    by (simp add: js_def sublist_Cons_right prefix_Cons)
  show ?thesis by (intro conjI) (rule a b c d)+
qed

section \<open>The message merger\<close>

lemma replace_g_no_open: "LBRACE \<notin> set s \<Longrightarrow> replace_g fn s = s"
proof (induction s)
  case Nil
  then show ?case by simp
next
  case (Cons c cs)
  then have "placeholder_at (c # cs) = None"
    by (auto intro: placeholder_at_not_open)
  with Cons show ?case by (simp del: replace_g.simps add: replace_g_None)
qed

lemma replace_g_no_close: "RBRACE \<notin> set s \<Longrightarrow> replace_g fn s = s"
proof (induction s)
  case Nil
  then show ?case by simp
next
  case (Cons c cs)
  then have "placeholder_at (c # cs) = None"
    by (auto intro: placeholder_at_no_close)
  with Cons show ?case by (simp del: replace_g.simps add: replace_g_None)
qed


lemma property_read_own:
  "values k \<noteq> None \<or> k \<notin> set object_prototype_names \<Longrightarrow>
   property_read member_text values k = values k"
  by (auto simp: property_read_def split: option.split)

lemmas merge_eval = mergeTemplateContent_def property_read_def object_prototype_names_def

text \<open>
  Claim C4, as amended. \<open>mergeTemplateContent\<close> is a total function. A token \<^verbatim>\<open>{...}\<close>
  (a non-empty text free of closing braces between braces) that stands after a text
  with no opening brace pending is replaced by the value of its trimmed name when the
  mapping has one, the empty string included; when the mapping has none and the
  trimmed name is not the name of a member of \<^verbatim>\<open>Object.prototype\<close>, it is replaced by
  \<^verbatim>\<open>{name}\<close> with the trimmed name. The text before and the text after are merged on
  their own. A text without an opening or without a closing brace is left as it is.
  The two examples of the specification give \<^verbatim>\<open>x-{b}\<close> and the empty string.
\<close>

theorem merge_replaces_tokens:
  "(brace_closed pre \<and> cap \<noteq> [] \<and> RBRACE \<notin> set cap
      \<and> (values (trim cap) \<noteq> None \<or> trim cap \<notin> set object_prototype_names) \<longrightarrow>
      mergeTemplateContent member_text (pre @ LBRACE # cap @ RBRACE # post) values
      = mergeTemplateContent member_text pre values
        @ (case values (trim cap) of Some v \<Rightarrow> v | None \<Rightarrow> LBRACE # trim cap @ [RBRACE])
        @ mergeTemplateContent member_text post values)
   \<and> (LBRACE \<notin> set body \<or> RBRACE \<notin> set body \<longrightarrow>
        mergeTemplateContent member_text body values = body)
   \<and> mergeTemplateContent member_text (js ''{a}-{b}'') [js ''a'' \<mapsto> js ''x''] = js ''x-{b}''
   \<and> mergeTemplateContent member_text (js ''{a}'') [js ''a'' \<mapsto> []] = []"
proof -
  let ?fn = "\<lambda>_ rawKey. let key = trim rawKey
                  in case property_read member_text values key of
                       Some v \<Rightarrow> v
                     | None \<Rightarrow> LBRACE # key @ [RBRACE]"
  have tok: "mergeTemplateContent member_text (pre @ LBRACE # cap @ RBRACE # post) values
      = mergeTemplateContent member_text pre values
        @ (case values (trim cap) of Some v \<Rightarrow> v | None \<Rightarrow> LBRACE # trim cap @ [RBRACE])
        @ mergeTemplateContent member_text post values"
    if h: "brace_closed pre" "cap \<noteq> []" "RBRACE \<notin> set cap"
      and own: "values (trim cap) \<noteq> None \<or> trim cap \<notin> set object_prototype_names"
  proof -
    have "replace_g ?fn (pre @ LBRACE # cap @ RBRACE # post)
          = replace_g ?fn pre @ replace_g ?fn (LBRACE # cap @ RBRACE # post)"
      using h(1) by (rule replace_g_append)
    also have "replace_g ?fn (LBRACE # cap @ RBRACE # post)
               = ?fn (LBRACE # cap @ [RBRACE]) cap @ replace_g ?fn post"
      using placeholder_at_token [OF h(2,3), of post] by (rule replace_g_Some)
    finally show ?thesis
      by (simp add: mergeTemplateContent_def Let_def
          property_read_own [of "values" "trim cap" member_text, OF own])
  qed
  have plain: "mergeTemplateContent member_text body values = body"
    if "LBRACE \<notin> set body \<or> RBRACE \<notin> set body"
    using that by (auto simp: mergeTemplateContent_def replace_g_no_open replace_g_no_close)
  have e1: "mergeTemplateContent member_text (js ''{a}-{b}'') [js ''a'' \<mapsto> js ''x'']
            = js ''x-{b}''"
    by (simp add: merge_eval js_eval)
  have e2: "mergeTemplateContent member_text (js ''{a}'') [js ''a'' \<mapsto> []] = []"
    by (simp add: merge_eval js_eval)
  from tok plain e1 e2 show ?thesis by blast
qed

theorem merge_replaces_tokens_witness:
  "brace_closed (js ''Hi {name}, '') \<and> js '' day '' \<noteq> [] \<and> RBRACE \<notin> set (js '' day '')
   \<and> trim (js '' day '') \<notin> set object_prototype_names
   \<and> mergeTemplateContent demo_member_text
        (js ''Hi {name}, '' @ LBRACE # js '' day '' @ RBRACE # js ''!'') [js ''name'' \<mapsto> []]
       = mergeTemplateContent demo_member_text (js ''Hi {name}, '') [js ''name'' \<mapsto> []]
         @ js ''{day}'' @ mergeTemplateContent demo_member_text (js ''!'') [js ''name'' \<mapsto> []]
   \<and> mergeTemplateContent demo_member_text (js ''Hi {name}, '') [js ''name'' \<mapsto> []]
       = js ''Hi , ''
   \<and> LBRACE \<notin> set (js ''!'')
   \<and> mergeTemplateContent demo_member_text (js ''!'') [js ''name'' \<mapsto> []] = js ''!''"
proof -
  have h: "brace_closed (js ''Hi {name}, '')" "js '' day '' \<noteq> []"
    "RBRACE \<notin> set (js '' day '')"
    by (simp_all add: brace_closed_def js_eval)
  have o: "trim (js '' day '') \<notin> set object_prototype_names"
    by (simp add: object_prototype_names_def js_eval)
  have v: "(case [js ''name'' \<mapsto> []] (trim (js '' day '')) of Some v \<Rightarrow> v
            | None \<Rightarrow> LBRACE # trim (js '' day '') @ [RBRACE]) = js ''{day}''"
    by (simp add: js_eval)
  from merge_replaces_tokens [of "js ''Hi {name}, ''" "js '' day ''" "[js ''name'' \<mapsto> []]"
      demo_member_text "js ''!''"] h o
  have "mergeTemplateContent demo_member_text
        (js ''Hi {name}, '' @ LBRACE # js '' day '' @ RBRACE # js ''!'') [js ''name'' \<mapsto> []]
       = mergeTemplateContent demo_member_text (js ''Hi {name}, '') [js ''name'' \<mapsto> []]
         @ (case [js ''name'' \<mapsto> []] (trim (js '' day '')) of Some v \<Rightarrow> v
            | None \<Rightarrow> LBRACE # trim (js '' day '') @ [RBRACE])
         @ mergeTemplateContent demo_member_text (js ''!'') [js ''name'' \<mapsto> []]"
    by blast
  then have a: "mergeTemplateContent demo_member_text
        (js ''Hi {name}, '' @ LBRACE # js '' day '' @ RBRACE # js ''!'') [js ''name'' \<mapsto> []]
       = mergeTemplateContent demo_member_text (js ''Hi {name}, '') [js ''name'' \<mapsto> []]
         @ js ''{day}'' @ mergeTemplateContent demo_member_text (js ''!'') [js ''name'' \<mapsto> []]"
    by (simp only: v)
  have b: "mergeTemplateContent demo_member_text (js ''Hi {name}, '') [js ''name'' \<mapsto> []]
           = js ''Hi , ''"
    by (simp add: merge_eval js_eval)
  have c: "LBRACE \<notin> set (js ''!'')" by (simp add: js_eval)
  have d: "mergeTemplateContent demo_member_text (js ''!'') [js ''name'' \<mapsto> []] = js ''!''"
    using merge_replaces_tokens [of _ _ "[js ''name'' \<mapsto> []]" demo_member_text _
        "js ''!''"] c
    by blast
  show ?thesis by (intro conjI) (rule h o a b c d)+
qed

text \<open>
  The claim as stated fails in two ways. A token with white space around its name is
  not left unchanged: \<^verbatim>\<open>{ b }\<close>, whose name \<^verbatim>\<open>b\<close> the mapping lacks, becomes \<^verbatim>\<open>{b}\<close>.
  And a name that the mapping lacks may be inherited: for \<^verbatim>\<open>{constructor}\<close> and the
  empty mapping the property read finds \<^verbatim>\<open>Object.prototype.constructor\<close>, and the token
  is replaced by the text of that function.
\<close>

theorem merge_trims_unresolved_counterexample:
  "parsePlaceholders (js ''{ b }'') = [js ''b'']
   \<and> (Map.empty :: jsstring \<rightharpoonup> jsstring) (js ''b'') = None
   \<and> mergeTemplateContent demo_member_text (js ''{ b }'') Map.empty = js ''{b}''
   \<and> mergeTemplateContent demo_member_text (js ''{ b }'') Map.empty \<noteq> js ''{ b }''
   \<and> parsePlaceholders (js ''{constructor}'') = [js ''constructor'']
   \<and> (Map.empty :: jsstring \<rightharpoonup> jsstring) (js ''constructor'') = None
   \<and> mergeTemplateContent demo_member_text (js ''{constructor}'') Map.empty
       = js ''function Object() { [native code] }''
   \<and> mergeTemplateContent demo_member_text (js ''{constructor}'') Map.empty
       \<noteq> js ''{constructor}''"
proof -
  have a: "parsePlaceholders (js ''{ b }'') = [js ''b'']"
    by (simp add: parsePlaceholders_def js_eval)
  have b: "(Map.empty :: jsstring \<rightharpoonup> jsstring) (js ''b'') = None" by simp
  have c: "mergeTemplateContent demo_member_text (js ''{ b }'') Map.empty = js ''{b}''"
    by (simp add: merge_eval js_eval)
  have d: "mergeTemplateContent demo_member_text (js ''{ b }'') Map.empty \<noteq> js ''{ b }''"
    by (simp only: c) (simp add: js_def)
  have e: "parsePlaceholders (js ''{constructor}'') = [js ''constructor'']"
    by (simp add: parsePlaceholders_def js_eval)
  have f: "(Map.empty :: jsstring \<rightharpoonup> jsstring) (js ''constructor'') = None" by simp
  have g: "mergeTemplateContent demo_member_text (js ''{constructor}'') Map.empty
           = js ''function Object() { [native code] }''"
    by (simp add: merge_eval demo_member_text_def js_eval)
  have h: "mergeTemplateContent demo_member_text (js ''{constructor}'') Map.empty
           \<noteq> js ''{constructor}''"
    by (simp only: g) (simp add: js_def)
  show ?thesis by (intro conjI) (rule a b c d e f g h)+
qed

section \<open>Extraction and merging together\<close>













end
